theory Spec2Isabelle
  imports Complex_Main "HOL-Library.Word" "HOL-Library.Code_Target_Numeral"
begin

section \<open>NDJSON benchmark tools: line index, filter loop and timing harness\<close>

text \<open>
  The two programs of the repository are \<^verbatim>\<open>bench/simdjson_bench.cpp\<close> (the filter tool) and
  \<^verbatim>\<open>bench/tokenizer_bench.cpp\<close> (the tokenizer tool). Bytes are \<^typ>\<open>char\<close>, a buffer is a
  \<^typ>\<open>char list\<close>, a \<^verbatim>\<open>size_t\<close> offset is a \<^typ>\<open>nat\<close> (an offset never exceeds the
  length of the loaded buffer, so no \<^verbatim>\<open>size_t\<close> arithmetic of the line scan wraps).
\<close>

subsection \<open>Line index (\<^verbatim>\<open>build_line_index\<close>, simdjson\_bench.cpp lines 36--48)\<close>

definition NL :: char where
  "NL = CHR 0x0A"

text \<open>
  The \<^verbatim>\<open>for (size_t i = 0; i <= len; ++i)\<close> loop with its two locals \<^verbatim>\<open>s\<close> and
  \<^verbatim>\<open>idx\<close>. \<^verbatim>\<open>data[i]\<close> is only read when \<^verbatim>\<open>i != len\<close> (short-circuit \<^verbatim>\<open>||\<close>).
\<close>

function bli_loop :: "char list \<Rightarrow> nat \<Rightarrow> nat \<Rightarrow> nat \<Rightarrow> (nat \<times> nat) list \<Rightarrow> (nat \<times> nat) list" where
  "bli_loop data len i s idx =
     (if i \<le> len then
        (if i = len \<or> data ! i = NL then
           bli_loop data len (i + 1) (i + 1) (if i > s then idx @ [(s, i)] else idx)
         else bli_loop data len (i + 1) s idx)
      else idx)"
  by pat_completeness auto
termination
  by (relation "measure (\<lambda>(data, len, i, s, idx). len + 1 - i)") auto

definition build_line_index :: "char list \<Rightarrow> nat \<Rightarrow> (nat \<times> nat) list" where
  "build_line_index data len = bli_loop data len 0 0 []"

text \<open>The byte span \<^verbatim>\<open>buffer[start:end]\<close> of a range (end exclusive).\<close>

definition span :: "char list \<Rightarrow> nat \<times> nat \<Rightarrow> char list" where
  "span buf r = take (snd r - fst r) (drop (fst r) buf)"

text \<open>
  The specification's words, for comparison with the loop: the buffer is split on the
  newline byte into segments (\<open>split_nl\<close>), and every non-empty segment yields the range
  of offsets it occupies (\<open>segment_ranges\<close>, where \<open>p\<close> is the offset of the first segment).
\<close>

fun split_nl :: "char list \<Rightarrow> char list list" where
  "split_nl [] = [[]]"
| "split_nl (c # cs) =
     (if c = NL then [] # split_nl cs
      else (case split_nl cs of [] \<Rightarrow> [[c]] | seg # rest \<Rightarrow> (c # seg) # rest))"

fun segment_ranges :: "nat \<Rightarrow> char list list \<Rightarrow> (nat \<times> nat) list" where
  "segment_ranges p [] = []"
| "segment_ranges p (seg # segs) =
     (if seg = [] then [] else [(p, p + length seg)]) @ segment_ranges (p + length seg + 1) segs"

text \<open>Ascending, non-overlapping, non-empty ranges that all end at or before \<open>L\<close>.\<close>

fun ascending_from :: "nat \<Rightarrow> nat \<Rightarrow> (nat \<times> nat) list \<Rightarrow> bool" where
  "ascending_from lo L [] = True"
| "ascending_from lo L (r # rs) =
     (lo \<le> fst r \<and> fst r < snd r \<and> snd r \<le> L \<and> ascending_from (snd r + 1) L rs)"

text \<open>Segments joined again with one newline byte between neighbours.\<close>

fun join_nl :: "char list list \<Rightarrow> char list" where
  "join_nl [] = []"
| "join_nl [s] = s"
| "join_nl (s # t # r) = s @ NL # join_nl (t # r)"

subsection \<open>Doubles, lookup results and the environment of the tools\<close>

text \<open>
  The field value and the threshold are C++ \<^verbatim>\<open>double\<close>s and are only ever compared, so
  they are kept with their special values; \<open>dgt\<close> is the IEEE-754 \<^verbatim>\<open>a > b\<close>, false as soon
  as one side is NaN. (\<^verbatim>\<open>--gt nan\<close> and \<^verbatim>\<open>--gt inf\<close> reach the comparison through \<^verbatim>\<open>atof\<close>.)
  Clock readings, their differences and sums are finite doubles whose arithmetic is
  idealised in \<^typ>\<open>real\<close>: rounding is not modelled. A quotient need not be finite:
  \<open>ddiv\<close> is the IEEE-754 \<^verbatim>\<open>a / b\<close>, infinite or NaN when \<open>b\<close> is zero. The zeros of
  these programs come from \<^verbatim>\<open>x - x\<close> and from sums, which give \<^verbatim>\<open>+0.0\<close>, so zero
  stands for \<^verbatim>\<open>+0.0\<close>.
\<close>

datatype double = Finite real | PosInf | NegInf | NaN

fun dgt :: "double \<Rightarrow> double \<Rightarrow> bool" where
  "dgt (Finite a) (Finite b) = (a > b)"
| "dgt (Finite a) NegInf = True"
| "dgt PosInf (Finite b) = True"
| "dgt PosInf NegInf = True"
| "dgt _ _ = False"

fun ddiv :: "double \<Rightarrow> double \<Rightarrow> double" where
  "ddiv (Finite a) (Finite b) =
     (if b = 0 then (if a = 0 then NaN else if 0 < a then PosInf else NegInf)
      else Finite (a / b))"
| "ddiv (Finite a) PosInf = Finite 0"
| "ddiv (Finite a) NegInf = Finite 0"
| "ddiv PosInf (Finite b) = (if 0 \<le> b then PosInf else NegInf)"
| "ddiv NegInf (Finite b) = (if 0 \<le> b then NegInf else PosInf)"
| "ddiv _ _ = NaN"

text \<open>
  \<^verbatim>\<open>doc[field].get(val)\<close>: either \<^verbatim>\<open>SUCCESS\<close> with the value stored in \<^verbatim>\<open>val\<close>, or any other
  error code (field absent, not a number, document malformed).
\<close>

datatype lookup_result = Miss | Hit double

type_synonym document = "string \<Rightarrow> lookup_result"

type_synonym error_code = nat

text \<open>
  What the programs take from outside: the file system behind \<^verbatim>\<open>padded_string::load\<close>, the
  simdjson library behind \<^verbatim>\<open>parser.iterate_many\<close> (an error code, or the documents the
  stream then yields in order, each with its on-demand field lookup), the C library's
  \<^verbatim>\<open>atof\<close> and \<^verbatim>\<open>atoi\<close> (a 32-bit \<^verbatim>\<open>int\<close>, read with \<open>sint\<close>), and the clock:
  \<open>clock env k\<close> is what the \<open>k\<close>-th call of \<^verbatim>\<open>now_secs\<close> returns.
\<close>

record env =
  load_file :: "string \<Rightarrow> error_code + char list"
  iterate_many :: "char list \<Rightarrow> error_code + document list"
  atof :: "string \<Rightarrow> double"
  atoi :: "string \<Rightarrow> 32 word"
  clock :: "nat \<Rightarrow> real"

text \<open>
  The observable actions of a run, in program order. \<open>Now\<close> is a call of \<^verbatim>\<open>now_secs\<close>,
  \<open>Deref\<close> the \<^verbatim>\<open>*it\<close> of one loop iteration, \<open>Lookup f\<close> a field lookup, \<open>Fwrite\<close> the
  \<^verbatim>\<open>fwrite\<close> of the output buffer to stdout, \<open>PrintCount\<close> the \<^verbatim>\<open>printf("%zu\n", matched)\<close>,
  \<open>PrintSummary\<close> the tokenizer's key=value line on stdout; \<open>Stderr\<close> is an
  \<^verbatim>\<open>fprintf(stderr, ...)\<close> with the values it formats.
\<close>

datatype diag =
    Usage
  | LoadError error_code
  | IterateManyError error_code
  | FilterReport bool bool string double nat nat real double
  | FileLoaded nat
  | Running int
  | TokenizerReport nat int nat real double double double

datatype event =
    Stderr diag
  | Load string
  | NewParser
  | IterateMany "char list"
  | Now
  | Deref
  | Lookup string
  | Fwrite "char list"
  | PrintCount nat
  | PrintSummary double real nat

datatype outcome = Exit int | Undefined

fun is_stdout :: "event \<Rightarrow> bool" where
  "is_stdout (Fwrite _) = True"
| "is_stdout (PrintCount _) = True"
| "is_stdout (PrintSummary _ _ _) = True"
| "is_stdout _ = False"

fun is_write :: "event \<Rightarrow> bool" where
  "is_write (Stderr _) = True"
| "is_write e = is_stdout e"

text \<open>\<^verbatim>\<open>(double)file_size / 1e9 / elapsed\<close>, the GB/s figure of both reports.\<close>

definition gb_per_sec :: "nat \<Rightarrow> double \<Rightarrow> double" where
  "gb_per_sec file_size elapsed =
     ddiv (ddiv (Finite (real file_size)) (Finite 1000000000)) elapsed"

subsection \<open>The filter tool (\<^verbatim>\<open>main\<close> of simdjson\_bench.cpp)\<close>

record options =
  filename :: "string option"
  field :: string
  threshold :: double
  count_only :: bool
  quiet :: bool

definition default_options :: options where
  "default_options =
     \<lparr>filename = None, field = ''age'', threshold = Finite 30, count_only = False, quiet = False\<rparr>"

text \<open>
  The argument loop (lines 59--65) over \<^verbatim>\<open>argv[1..argc-1]\<close>. \<^verbatim>\<open>i+1 < argc\<close> is
  \<open>rest \<noteq> []\<close>; \<^verbatim>\<open>argv[i][0] != '-'\<close> also holds for the empty string, whose first byte
  is the terminating NUL.
\<close>

fun parse_args :: "env \<Rightarrow> string list \<Rightarrow> options \<Rightarrow> options" where
  "parse_args env [] opts = opts"
| "parse_args env (a # rest) opts =
     (if a = ''--count'' then parse_args env rest (opts\<lparr>count_only := True\<rparr>)
      else if a = ''--quiet'' then parse_args env rest (opts\<lparr>quiet := True\<rparr>)
      else if a = ''--field'' \<and> rest \<noteq> [] then
        parse_args env (tl rest) (opts\<lparr>field := hd rest\<rparr>)
      else if a = ''--gt'' \<and> rest \<noteq> [] then
        parse_args env (tl rest) (opts\<lparr>threshold := atof env (hd rest)\<rparr>)
      else if (case a of [] \<Rightarrow> True | c # _ \<Rightarrow> c \<noteq> CHR ''-'') then
        parse_args env rest (opts\<lparr>filename := Some a\<rparr>)
      else parse_args env rest opts)"

text \<open>\<^verbatim>\<open>ok && val > threshold\<close> (line 120); \<^verbatim>\<open>val\<close> is read only when \<^verbatim>\<open>ok\<close>.\<close>

fun matches :: "lookup_result \<Rightarrow> double \<Rightarrow> bool" where
  "matches Miss thr = False"
| "matches (Hit val) thr = dgt val thr"

text \<open>
  The locals the benchmark loop updates. The counters are \<^verbatim>\<open>size_t\<close>; the stream yields
  fewer documents than the buffer has bytes, so they do not wrap.
\<close>

record loop_state =
  total :: nat
  matched :: nat
  line_no :: nat
  out_buf :: "char list"
  ltrace :: "event list"

definition loop_init :: loop_state where
  "loop_init = \<lparr>total = 0, matched = 0, line_no = 0, out_buf = [], ltrace = []\<rparr>"

text \<open>One iteration of the benchmark loop (lines 116--132).\<close>

definition filter_step ::
  "options \<Rightarrow> char list \<Rightarrow> (nat \<times> nat) list \<Rightarrow> nat \<Rightarrow> document \<Rightarrow> loop_state \<Rightarrow> loop_state" where
  "filter_step opts json line_idx total_lines doc st =
     (let st1 = st\<lparr>ltrace := ltrace st @ [Deref, Lookup (field opts)]\<rparr>;
          st2 = (if matches (doc (field opts)) (threshold opts) then
                   (let st' = st1\<lparr>matched := matched st1 + 1\<rparr> in
                    if \<not> count_only opts \<and> \<not> quiet opts \<and> line_no st' < total_lines then
                      (case line_idx ! line_no st' of (s, e) \<Rightarrow>
                         st'\<lparr>out_buf := out_buf st' @ take (e - s) (drop s json) @ [NL]\<rparr>)
                    else st')
                 else st1)
      in st2\<lparr>total := total st2 + 1, line_no := line_no st2 + 1\<rparr>)"

fun filter_loop ::
  "options \<Rightarrow> char list \<Rightarrow> (nat \<times> nat) list \<Rightarrow> nat \<Rightarrow> document list \<Rightarrow> loop_state \<Rightarrow> loop_state" where
  "filter_loop opts json line_idx total_lines [] st = st"
| "filter_loop opts json line_idx total_lines (doc # docs) st =
     filter_loop opts json line_idx total_lines docs
       (filter_step opts json line_idx total_lines doc st)"

text \<open>The flush after the loop (lines 138--143).\<close>

definition flush_output :: "options \<Rightarrow> loop_state \<Rightarrow> event list" where
  "flush_output opts st =
     (if \<not> count_only opts \<and> \<not> quiet opts \<and> out_buf st \<noteq> [] then [Fwrite (out_buf st)] else [])
     @ (if count_only opts then [PrintCount (matched st)] else [])"

text \<open>\<^verbatim>\<open>main\<close> from line 67 on, with the parsed options.\<close>

definition run_filter :: "env \<Rightarrow> options \<Rightarrow> event list \<times> outcome" where
  "run_filter env opts =
     (case filename opts of
        None \<Rightarrow> ([Stderr Usage], Exit 1)
      | Some fname \<Rightarrow>
         (case load_file env fname of
            Inl err \<Rightarrow> ([Load fname, Stderr (LoadError err)], Exit 1)
          | Inr json \<Rightarrow>
             (let file_size = length json;
                  line_idx = build_line_index json file_size;
                  total_lines = length line_idx
              in case iterate_many env json of
                   Inl err \<Rightarrow>
                     ([Load fname, NewParser, IterateMany json, Stderr (IterateManyError err)],
                      Exit 1)
                 | Inr docs \<Rightarrow>
                     (let t0 = clock env 0;
                          st = filter_loop opts json line_idx total_lines docs loop_init;
                          elapsed = clock env 1 - t0
                      in ([Load fname, NewParser, IterateMany json, Now] @ ltrace st @ [Now]
                            @ flush_output opts st
                            @ [Stderr (FilterReport (count_only opts) (quiet opts) (field opts)
                                 (threshold opts) (total st) (matched st) elapsed
                                 (gb_per_sec file_size (Finite elapsed)))],
                          Exit 0)))))"

definition filter_main :: "env \<Rightarrow> string list \<Rightarrow> event list \<times> outcome" where
  "filter_main env argv = run_filter env (parse_args env (tl argv) default_options)"

subsection \<open>Closed forms of a run of the filter tool\<close>

text \<open>What one matching document appends: the bytes of line \<open>i\<close> of the index and a newline.\<close>

definition emit :: "char list \<Rightarrow> (nat \<times> nat) list \<Rightarrow> nat \<Rightarrow> char list" where
  "emit json line_idx i = span json (line_idx ! i) @ [NL]"

text \<open>The stream positions of the documents that satisfy the predicate.\<close>

definition match_positions :: "options \<Rightarrow> document list \<Rightarrow> nat list" where
  "match_positions opts docs =
     filter (\<lambda>i. matches ((docs ! i) (field opts)) (threshold opts)) [0..<length docs]"

text \<open>Neither \<^verbatim>\<open>--count\<close> nor \<^verbatim>\<open>--quiet\<close>: the mode that accumulates output.\<close>

definition output_mode :: "options \<Rightarrow> bool" where
  "output_mode opts = (\<not> count_only opts \<and> \<not> quiet opts)"

text \<open>The index \<^verbatim>\<open>main\<close> builds for the loaded buffer (line 84).\<close>

definition line_index :: "char list \<Rightarrow> (nat \<times> nat) list" where
  "line_index json = build_line_index json (length json)"

text \<open>The bytes of the indexed lines of all matching documents whose position lies inside the index.\<close>

definition emitted :: "options \<Rightarrow> char list \<Rightarrow> document list \<Rightarrow> char list" where
  "emitted opts json docs =
     concat (map (emit json (line_index json))
       (filter (\<lambda>i. i < length (line_index json)) (match_positions opts docs)))"

text \<open>The actions of the benchmark loop over a stream.\<close>

definition loop_events :: "options \<Rightarrow> document list \<Rightarrow> event list" where
  "loop_events opts docs = concat (map (\<lambda>d. [Deref, Lookup (field opts)]) docs)"

text \<open>The report line of a completed run (lines 146--155).\<close>

definition filter_report :: "env \<Rightarrow> options \<Rightarrow> char list \<Rightarrow> document list \<Rightarrow> event" where
  "filter_report env opts json docs =
     Stderr (FilterReport (count_only opts) (quiet opts) (field opts) (threshold opts)
       (length docs) (length (match_positions opts docs)) (clock env 1 - clock env 0)
       (gb_per_sec (length json) (Finite (clock env 1 - clock env 0))))"

text \<open>The stdout actions of the flush, in terms of the stream.\<close>

definition expected_flush :: "options \<Rightarrow> char list \<Rightarrow> document list \<Rightarrow> event list" where
  "expected_flush opts json docs =
     (if output_mode opts \<and> emitted opts json docs \<noteq> [] then [Fwrite (emitted opts json docs)] else [])
     @ (if count_only opts then [PrintCount (length (match_positions opts docs))] else [])"

subsection \<open>The tokenizer tool (\<^verbatim>\<open>main\<close> of tokenizer\_bench.cpp)\<close>

text \<open>The warm-up loop (lines 62--65): every document is dereferenced and dropped.\<close>

fun warmup_loop :: "document list \<Rightarrow> event list" where
  "warmup_loop [] = []"
| "warmup_loop (doc # docs) = Deref # warmup_loop docs"

definition warmup :: "env \<Rightarrow> char list \<Rightarrow> event list" where
  "warmup env json =
     [NewParser, IterateMany json]
     @ (case iterate_many env json of Inl err \<Rightarrow> [] | Inr docs \<Rightarrow> warmup_loop docs)"

text \<open>
  The inner loop of a timed iteration (lines 89--98): the lookup of \<^verbatim>\<open>"__z__"\<close> is made and
  its result discarded; \<^verbatim>\<open>docs\<close> counts the documents.
\<close>

fun tokenize_loop :: "document list \<Rightarrow> nat \<Rightarrow> event list \<Rightarrow> nat \<times> event list" where
  "tokenize_loop [] docs tr = (docs, tr)"
| "tokenize_loop (doc # rest) docs tr = tokenize_loop rest (docs + 1) (tr @ [Deref, Lookup ''__z__''])"

text \<open>
  The locals of the timed loop; \<open>reads\<close> counts the calls of \<^verbatim>\<open>now_secs\<close> made so far.
  \<^verbatim>\<open>total_docs\<close> is a \<^verbatim>\<open>size_t\<close> (64 bits) and its addition wraps.
\<close>

record tok_state =
  total_time :: real
  total_docs :: nat
  run_times :: "real list"
  reads :: nat
  trace :: "event list"

definition size_max :: nat where
  "size_max = 2 ^ 64"

function timed_iterations :: "env \<Rightarrow> char list \<Rightarrow> int \<Rightarrow> int \<Rightarrow> tok_state \<Rightarrow> tok_state" where
  "timed_iterations env json iters iter st =
     (if iter < iters then
        (let tr1 = trace st @ [NewParser];
             t0 = clock env (reads st);
             tr2 = tr1 @ [Now, IterateMany json];
             (docs, tr3) = (case iterate_many env json of
                              Inl err \<Rightarrow> (0, tr2)
                            | Inr ds \<Rightarrow> tokenize_loop ds 0 tr2);
             elapsed = clock env (reads st + 1) - t0
         in timed_iterations env json iters (iter + 1)
              \<lparr>total_time = total_time st + elapsed,
               total_docs = (total_docs st + docs) mod size_max,
               run_times = run_times st @ [elapsed],
               reads = reads st + 2,
               trace = tr3 @ [Now]\<rparr>)
      else st)"
  by pat_completeness auto
termination
  by (relation "measure (\<lambda>(env, json, iters, iter, st). nat (iters - iter))") auto

text \<open>\<^verbatim>\<open>for (double t : run_times) if (t < best) best = t;\<close>\<close>

fun best_loop :: "real list \<Rightarrow> real \<Rightarrow> real" where
  "best_loop [] best = best"
| "best_loop (t # ts) best = best_loop ts (if t < best then t else best)"

text \<open>
  The report stage (lines 108--130). \<^verbatim>\<open>run_times[0]\<close> on an empty vector and the
  \<^verbatim>\<open>size_t\<close> division by \<^verbatim>\<open>(size_t)iters = 0\<close> are undefined behaviour.
\<close>

definition report :: "nat \<Rightarrow> int \<Rightarrow> tok_state \<Rightarrow> event list \<times> outcome" where
  "report file_size iters st =
     (case run_times st of
        [] \<Rightarrow> (trace st, Undefined)
      | first # _ \<Rightarrow>
         (let best = best_loop (run_times st) first;
              avg = ddiv (Finite (total_time st)) (Finite (real_of_int iters));
              divisor = nat (iters mod int size_max)
          in if divisor = 0 then (trace st, Undefined)
             else
               (trace st
                 @ [Stderr (TokenizerReport file_size iters (total_docs st div divisor)
                      best (gb_per_sec file_size (Finite best)) avg (gb_per_sec file_size avg)),
                    PrintSummary (gb_per_sec file_size (Finite best)) best
                      (total_docs st div divisor)],
                Exit 0)))"

definition tok_init :: "event list \<Rightarrow> tok_state" where
  "tok_init tr = \<lparr>total_time = 0, total_docs = 0, run_times = [], reads = 0, trace = tr\<rparr>"

text \<open>\<^verbatim>\<open>argv\<close> is the whole argument vector, \<^verbatim>\<open>argv[0]\<close> included; \<^verbatim>\<open>argc\<close> is its length.\<close>

definition tokenizer_main :: "env \<Rightarrow> string list \<Rightarrow> event list \<times> outcome" where
  "tokenizer_main env argv =
     (if length argv < 2 then ([Stderr Usage], Exit 1)
      else
        (let fname = argv ! 1;
             iters = (if length argv \<ge> 3 then sint (atoi env (argv ! 2)) else 5)
         in case load_file env fname of
              Inl err \<Rightarrow> ([Load fname, Stderr (LoadError err)], Exit 1)
            | Inr json \<Rightarrow>
               (let file_size = length json;
                    tr = [Load fname, Stderr (FileLoaded file_size)] @ warmup env json
                           @ [Stderr (Running iters)]
                in report file_size iters (timed_iterations env json iters 0 (tok_init tr)))))"

subsection \<open>Closed forms of a run of the tokenizer tool\<close>

text \<open>The documents a pass iterates over: none when \<^verbatim>\<open>iterate_many\<close> reports an error.\<close>

definition pass_docs :: "env \<Rightarrow> char list \<Rightarrow> document list" where
  "pass_docs env json = (case iterate_many env json of Inl err \<Rightarrow> [] | Inr ds \<Rightarrow> ds)"

text \<open>The actions of the inner loop of a timed pass, and of a whole timed pass.\<close>

definition pass_lookups :: "document list \<Rightarrow> event list" where
  "pass_lookups docs = concat (map (\<lambda>d. [Deref, Lookup ''__z__'']) docs)"

definition timed_pass :: "env \<Rightarrow> char list \<Rightarrow> event list" where
  "timed_pass env json =
     [NewParser, Now, IterateMany json] @ pass_lookups (pass_docs env json) @ [Now]"

text \<open>
  The time the \<open>k\<close>-th timed pass measures: the clock is read twice per pass and nowhere
  else, so pass \<open>k\<close> gets readings \<open>2k\<close> and \<open>2k + 1\<close>.
\<close>

definition elapsed_of :: "env \<Rightarrow> nat \<Rightarrow> real" where
  "elapsed_of env k = clock env (2 * k + 1) - clock env (2 * k)"

definition run_times_of :: "env \<Rightarrow> nat \<Rightarrow> real list" where
  "run_times_of env n = map (elapsed_of env) [0..<n]"

text \<open>One iteration of the timed loop as a state transformer.\<close>

definition pass_step :: "env \<Rightarrow> char list \<Rightarrow> tok_state \<Rightarrow> tok_state" where
  "pass_step env json st =
     \<lparr>total_time = total_time st + (clock env (reads st + 1) - clock env (reads st)),
      total_docs = (total_docs st + length (pass_docs env json)) mod size_max,
      run_times = run_times st @ [clock env (reads st + 1) - clock env (reads st)],
      reads = reads st + 2,
      trace = trace st @ timed_pass env json\<rparr>"

text \<open>\<^verbatim>\<open>argc >= 3 ? atoi(argv[2]) : 5\<close>\<close>

definition tok_iters :: "env \<Rightarrow> string list \<Rightarrow> int" where
  "tok_iters env argv = (if length argv \<ge> 3 then sint (atoi env (argv ! 2)) else 5)"

text \<open>What precedes the timed loop in the trace of a run that loaded its file.\<close>

definition tok_prefix :: "env \<Rightarrow> string list \<Rightarrow> char list \<Rightarrow> event list" where
  "tok_prefix env argv json =
     [Load (argv ! 1), Stderr (FileLoaded (length json)), NewParser, IterateMany json]
     @ map (\<lambda>d. Deref) (pass_docs env json)
     @ [Stderr (Running (tok_iters env argv))]"

text \<open>The state in which the timed loop hands over to the report stage.\<close>

definition tok_final :: "env \<Rightarrow> string list \<Rightarrow> char list \<Rightarrow> tok_state" where
  "tok_final env argv json =
     timed_iterations env json (tok_iters env argv) 0 (tok_init (tok_prefix env argv json))"

text \<open>\<^verbatim>\<open>total_docs / (size_t)iters\<close> after \<open>n \<ge> 1\<close> passes.\<close>

definition docs_per_iter :: "env \<Rightarrow> char list \<Rightarrow> nat \<Rightarrow> nat" where
  "docs_per_iter env json n = ((n * length (pass_docs env json)) mod size_max) div n"

text \<open>
  The two lines of the report stage after \<open>n \<ge> 1\<close> timed passes, with the best time as
  the minimum of the run times and the average as their sum over \<open>n\<close>.
\<close>

definition tok_report :: "env \<Rightarrow> string list \<Rightarrow> char list \<Rightarrow> event list" where
  "tok_report env argv json =
     (let n = nat (tok_iters env argv);
          best = Min (set (run_times_of env n));
          avg = ddiv (Finite (sum_list (run_times_of env n))) (Finite (real n))
      in [Stderr (TokenizerReport (length json) (tok_iters env argv) (docs_per_iter env json n)
            best (gb_per_sec (length json) (Finite best))
            avg (gb_per_sec (length json) avg)),
          PrintSummary (gb_per_sec (length json) (Finite best)) best (docs_per_iter env json n)])"

subsection \<open>Failure cases\<close>

text \<open>
  The filter tool fails when no file name was given, when the file cannot be loaded, or when
  \<^verbatim>\<open>iterate_many\<close> reports an error; the tokenizer tool when \<^verbatim>\<open>argc < 2\<close> or the file cannot
  be loaded.
\<close>

definition filter_failure :: "env \<Rightarrow> options \<Rightarrow> bool" where
  "filter_failure env opts =
     (case filename opts of
        None \<Rightarrow> True
      | Some fname \<Rightarrow>
         (case load_file env fname of
            Inl err \<Rightarrow> True
          | Inr json \<Rightarrow> (case iterate_many env json of Inl err \<Rightarrow> True | Inr docs \<Rightarrow> False)))"

definition tok_failure :: "env \<Rightarrow> string list \<Rightarrow> bool" where
  "tok_failure env argv =
     (length argv < 2 \<or> (case load_file env (argv ! 1) of Inl err \<Rightarrow> True | Inr json \<Rightarrow> False))"

subsection \<open>Reading a trace\<close>

text \<open>The number of newline bytes written to stdout by \<^verbatim>\<open>fwrite\<close>: the lines emitted.\<close>

fun stdout_lines :: "event list \<Rightarrow> nat" where
  "stdout_lines [] = 0"
| "stdout_lines (Fwrite bytes # es) = count_list bytes NL + stdout_lines es"
| "stdout_lines (e # es) = stdout_lines es"

text \<open>
  The timed region of a trace with two clock readings: the actions strictly between the
  first and the second \<open>Now\<close>; \<open>before_timer\<close> and \<open>after_timer\<close> are what precedes the
  first and what follows the second.
\<close>

definition before_timer :: "event list \<Rightarrow> event list" where
  "before_timer tr = takeWhile (\<lambda>e. e \<noteq> Now) tr"

definition timed_region :: "event list \<Rightarrow> event list" where
  "timed_region tr = takeWhile (\<lambda>e. e \<noteq> Now) (tl (dropWhile (\<lambda>e. e \<noteq> Now) tr))"

definition after_timer :: "event list \<Rightarrow> event list" where
  "after_timer tr = tl (dropWhile (\<lambda>e. e \<noteq> Now) (tl (dropWhile (\<lambda>e. e \<noteq> Now) tr)))"

text \<open>The file load, and the diagnostics that precede an exit with code 1.\<close>

fun is_load :: "event \<Rightarrow> bool" where
  "is_load (Load _) = True"
| "is_load _ = False"

fun is_diagnostic :: "event \<Rightarrow> bool" where
  "is_diagnostic (Stderr Usage) = True"
| "is_diagnostic (Stderr (LoadError _)) = True"
| "is_diagnostic (Stderr (IterateManyError _)) = True"
| "is_diagnostic _ = False"

subsection \<open>Concrete inputs\<close>

text \<open>
  The three-record scenario of the specification, one document per line, and a buffer that
  holds two documents on one line (simdjson's \<^verbatim>\<open>iterate_many\<close> separates documents by any
  whitespace, so it yields two documents where the line index has one line).
\<close>

definition demo_buf :: string where
  \<open>demo_buf = ''{"age":25}'' @ [NL] @ ''{"age":35}'' @ [NL] @ ''{"age":30}'' @ [NL]\<close>

definition age_doc :: "real \<Rightarrow> document" where
  "age_doc v = (\<lambda>f. if f = ''age'' then Hit (Finite v) else Miss)"

definition demo_docs :: "document list" where
  "demo_docs = [age_doc 25, age_doc 35, age_doc 30]"

definition demo_env :: env where
  "demo_env = \<lparr>load_file = (\<lambda>f. if f = ''data.ndjson'' then Inr demo_buf else Inl 1),
     iterate_many = (\<lambda>b. if b = demo_buf then Inr demo_docs else Inl 2),
     atof = (\<lambda>s. if s = ''30'' then Finite 30 else NaN),
     atoi = (\<lambda>s. if s = ''2'' then 2 else 0),
     clock = real\<rparr>"

definition two_buf :: string where
  \<open>two_buf = ''{"age":35} {"age":40}'' @ [NL]\<close>

definition two_docs :: "document list" where
  "two_docs = [age_doc 35, age_doc 40]"

definition two_env :: env where
  "two_env = \<lparr>load_file = (\<lambda>f. if f = ''two.ndjson'' then Inr two_buf else Inl 1),
     iterate_many = (\<lambda>b. if b = two_buf then Inr two_docs else Inl 2),
     atof = (\<lambda>s. if s = ''30'' then Finite 30 else NaN),
     atoi = (\<lambda>s. if s = ''2'' then 2 else 0),
     clock = real\<rparr>"

definition demo_opts :: options where
  "demo_opts = default_options\<lparr>filename := Some ''data.ndjson''\<rparr>"

definition two_opts :: options where
  "two_opts = default_options\<lparr>filename := Some ''two.ndjson''\<rparr>"

text \<open>The loop state after the first of the two documents on the one line.\<close>

definition two_after_first :: loop_state where
  "two_after_first =
     filter_step two_opts two_buf (line_index two_buf) (length (line_index two_buf))
       (two_docs ! 0) loop_init"

text \<open>The same file under a library whose \<^verbatim>\<open>iterate_many\<close> always reports an error.\<close>

definition fail_env :: env where
  "fail_env = demo_env\<lparr>iterate_many := (\<lambda>b. Inl 2)\<rparr>"

text \<open>The same file under a clock that returns the same reading every time.\<close>

definition flat_env :: env where
  "flat_env = demo_env\<lparr>clock := (\<lambda>k. 7)\<rparr>"

section \<open>Properties\<close>

subsection \<open>The line index\<close>


lemma split_nl_not_Nil [simp]: "split_nl xs \<noteq> []"
  by (induction xs) (auto split: list.splits)

lemma split_nl_no_nl: "NL \<notin> set a \<Longrightarrow> split_nl a = [a]"
  by (induction a) auto

lemma split_nl_append: "NL \<notin> set a \<Longrightarrow> split_nl (a @ NL # b) = a # split_nl b"
  by (induction a) auto

lemma split_nl_segments_no_nl: "seg \<in> set (split_nl xs) \<Longrightarrow> NL \<notin> set seg"
  by (induction xs arbitrary: seg) (auto split: if_splits list.splits)

lemma split_nl_size: "sum_list (map length (split_nl xs)) + length (split_nl xs) = length xs + 1"
  by (induction xs) (auto split: list.splits)

lemma bli_loop_past: "len < i \<Longrightarrow> bli_loop data len i s idx = idx"
  by simp

lemma drop_split_at:
  assumes "s \<le> i" "i < length data"
  shows "drop s data = take (i - s) (drop s data) @ data ! i # drop (i + 1) data"
proof -
  have "drop s data = take (i - s) (drop s data) @ drop (i - s) (drop s data)"
    by (simp only: append_take_drop_id)
  also have "drop (i - s) (drop s data) = drop i data"
    using assms by simp
  also have "drop i data = data ! i # drop (i + 1) data"
    using assms by (simp add: Cons_nth_drop_Suc)
  finally show ?thesis .
qed

lemma take_Suc_window:
  assumes "s \<le> i" "i < length data"
  shows "take (i + 1 - s) (drop s data) = take (i - s) (drop s data) @ [data ! i]"
proof -
  have "i + 1 - s = Suc (i - s)" using assms by simp
  moreover have "i - s < length (drop s data)" using assms by simp
  moreover have "drop s data ! (i - s) = data ! i" using assms by simp
  ultimately show ?thesis by (simp add: take_Suc_conv_app_nth)
qed

lemma bli_loop_spec:
  "len = length data \<Longrightarrow> s \<le> i \<Longrightarrow> i \<le> len \<Longrightarrow> NL \<notin> set (take (i - s) (drop s data)) \<Longrightarrow>
   bli_loop data len i s idx = idx @ segment_ranges s (split_nl (drop s data))"
proof (induction data len i s idx rule: bli_loop.induct)
  case (1 data len i s idx)
  show ?case
  proof (cases "i = len")
    case True
    have whole: "take (i - s) (drop s data) = drop s data"
      using True "1.prems" by simp
    have sp: "split_nl (drop s data) = [drop s data]"
      using "1.prems"(4) whole by (simp add: split_nl_no_nl)
    have "bli_loop data len i s idx =
            bli_loop data len (i + 1) (i + 1) (if i > s then idx @ [(s, i)] else idx)"
      using True by (subst bli_loop.simps) simp
    also have "\<dots> = (if i > s then idx @ [(s, i)] else idx)"
      using True by (simp add: bli_loop_past del: bli_loop.simps)
    also have "\<dots> = idx @ segment_ranges s (split_nl (drop s data))"
      using True "1.prems" by (auto simp: sp)
    finally show ?thesis .
  next
    case False
    then have lt: "i < length data" using "1.prems" by simp
    show ?thesis
    proof (cases "data ! i = NL")
      case True
      let ?idx' = "if i > s then idx @ [(s, i)] else idx"
      have step: "bli_loop data len i s idx = bli_loop data len (i + 1) (i + 1) ?idx'"
        using True "1.prems" by (subst bli_loop.simps) simp
      have ih: "bli_loop data len (i + 1) (i + 1) ?idx' =
                ?idx' @ segment_ranges (i + 1) (split_nl (drop (i + 1) data))"
        using "1.IH"(1) [of] True "1.prems" lt by simp
      have "drop s data = take (i - s) (drop s data) @ NL # drop (i + 1) data"
        using drop_split_at [OF "1.prems"(2) lt] True by simp
      then have "split_nl (drop s data) = take (i - s) (drop s data) # split_nl (drop (i + 1) data)"
        using split_nl_append [OF "1.prems"(4)] by metis
      then have "segment_ranges s (split_nl (drop s data)) =
                 (if i > s then [(s, i)] else []) @ segment_ranges (i + 1) (split_nl (drop (i + 1) data))"
        using "1.prems" lt by (auto simp: min_def)
      then show ?thesis using step ih by simp
    next
      case False
      have step: "bli_loop data len i s idx = bli_loop data len (i + 1) s idx"
        using False \<open>i \<noteq> len\<close> "1.prems" by (subst bli_loop.simps) simp
      have "NL \<notin> set (take (i + 1 - s) (drop s data))"
        using take_Suc_window [OF "1.prems"(2) lt] "1.prems"(4) False by auto
      then have "bli_loop data len (i + 1) s idx = idx @ segment_ranges s (split_nl (drop s data))"
        using "1.IH"(2) False \<open>i \<noteq> len\<close> "1.prems" lt by simp
      then show ?thesis using step by simp
    qed
  qed
qed

lemma build_line_index_refines:
  "build_line_index data (length data) = segment_ranges 0 (split_nl data)"
  using bli_loop_spec [of "length data" data 0 0 "[]"] by (simp add: build_line_index_def)

lemma join_nl_Cons_head: "join_nl ((a # s) # r) = a # join_nl (s # r)"
  by (cases r) auto

lemma join_split_nl: "join_nl (split_nl xs) = xs"
proof (induction xs)
  case Nil
  show ?case by simp
next
  case (Cons c cs)
  obtain seg rest where sp: "split_nl cs = seg # rest"
    by (cases "split_nl cs") auto
  have tl: "join_nl (seg # rest) = cs" using Cons.IH sp by simp
  show ?case
  proof (cases "c = NL")
    case True
    then have "split_nl (c # cs) = [] # seg # rest" using sp by simp
    then show ?thesis using tl True by simp
  next
    case False
    then have "split_nl (c # cs) = (c # seg) # rest" using sp by simp
    then show ?thesis using tl by (simp add: join_nl_Cons_head)
  qed
qed

lemma ascending_from_mono: "lo' \<le> lo \<Longrightarrow> ascending_from lo L rs \<Longrightarrow> ascending_from lo' L rs"
  by (cases rs) auto

lemma segment_ranges_ascending:
  "segs \<noteq> [] \<Longrightarrow> p + sum_list (map length segs) + length segs \<le> L + 1 \<Longrightarrow>
   ascending_from p L (segment_ranges p segs)"
proof (induction segs arbitrary: p)
  case Nil
  then show ?case by simp
next
  case (Cons seg rest)
  show ?case
  proof (cases "rest = []")
    case True
    then show ?thesis using Cons.prems by auto
  next
    case False
    have "ascending_from (p + length seg + 1) L (segment_ranges (p + length seg + 1) rest)"
      using Cons.IH [OF False, of "p + length seg + 1"] Cons.prems by simp
    moreover have "p + length seg \<le> L" using Cons.prems False by (cases rest) auto
    ultimately show ?thesis
      by (auto intro: ascending_from_mono [of p "p + 1"])
  qed
qed

lemma span_of_segment:
  "span (pre @ seg @ post) (length pre, length pre + length seg) = seg"
  by (simp add: span_def)

lemma segment_ranges_spans:
  "map (span (pre @ join_nl segs)) (segment_ranges (length pre) segs) = filter (\<lambda>s. s \<noteq> []) segs"
proof (induction segs arbitrary: pre rule: join_nl.induct)
  case 1
  then show ?case by simp
next
  case (2 s)
  show ?case using span_of_segment [of pre s "[]"] by simp
next
  case (3 s t r)
  have here: "span (pre @ s @ NL # join_nl (t # r)) (length pre, length pre + length s) = s"
    using span_of_segment [of pre s "NL # join_nl (t # r)"] by simp
  have rest: "map (span ((pre @ s @ [NL]) @ join_nl (t # r))) (segment_ranges (length (pre @ s @ [NL])) (t # r))
        = filter (\<lambda>s. s \<noteq> []) (t # r)"
    by (rule "3.IH")
  have "segment_ranges (length pre) (s # t # r) =
        (if s = [] then [] else [(length pre, length pre + length s)]) @
        segment_ranges (length (pre @ s @ [NL])) (t # r)"
    by simp
  moreover have "pre @ join_nl (s # t # r) = (pre @ s @ [NL]) @ join_nl (t # r)"
    by simp
  ultimately show ?case using here rest
    by (simp del: segment_ranges.simps join_nl.simps)
qed

lemma build_line_index_spans:
  "map (span data) (build_line_index data (length data)) = filter (\<lambda>s. s \<noteq> []) (split_nl data)"
  using segment_ranges_spans [of "[]" "split_nl data"]
  by (simp add: build_line_index_refines join_split_nl)

lemma build_line_index_ascending:
  "ascending_from 0 (length data) (build_line_index data (length data))"
  using segment_ranges_ascending [of "split_nl data" 0 "length data"] split_nl_size [of data]
  by (simp add: build_line_index_refines)

lemma build_line_index_no_nl:
  assumes "r \<in> set (build_line_index data (length data))"
  shows "NL \<notin> set (span data r)"
proof -
  have "span data r \<in> set (map (span data) (build_line_index data (length data)))"
    using assms by simp
  then have "span data r \<in> set (split_nl data)"
    by (simp add: build_line_index_spans)
  then show ?thesis by (rule split_nl_segments_no_nl)
qed

text \<open>
  Claim C2. On a buffer of length \<open>L\<close> the forward scan \<^verbatim>\<open>build_line_index\<close> returns exactly
  the ranges of the non-empty newline-separated segments: it equals the ranges the
  specification's splitting assigns to them, the bytes of the ranges are the non-empty
  segments in order (so empty segments are dropped and an unterminated last segment is kept),
  the ranges are non-empty, ascending, separated by at least one byte and end at or before
  \<open>L\<close>. The function is total, and the empty buffer gives the empty index.
\<close>

theorem build_line_index_correct:
  "build_line_index data (length data) = segment_ranges 0 (split_nl data)
   \<and> map (span data) (build_line_index data (length data)) = filter (\<lambda>seg. seg \<noteq> []) (split_nl data)
   \<and> ascending_from 0 (length data) (build_line_index data (length data))
   \<and> build_line_index [] 0 = []"
proof -
  have "build_line_index [] 0 = []"
    by (simp add: build_line_index_def)
  then show ?thesis
    using build_line_index_refines [of data] build_line_index_spans [of data]
      build_line_index_ascending [of data]
    by simp
qed

theorem build_line_index_correct_witness:
  "build_line_index (''ab'' @ [NL, NL] @ ''c'') 5 = [(0, 2), (4, 5)]
   \<and> map (span (''ab'' @ [NL, NL] @ ''c'')) [(0, 2), (4, 5)] = [''ab'', ''c'']
   \<and> filter (\<lambda>seg. seg \<noteq> []) (split_nl (''ab'' @ [NL, NL] @ ''c'')) = [''ab'', ''c'']"
  using build_line_index_correct [of "''ab'' @ [NL, NL] @ ''c''"]
  by (simp add: NL_def span_def build_line_index_def)

subsection \<open>The benchmark loop of the filter tool\<close>

lemma filter_step_total: "total (filter_step opts json idx n doc st) = total st + 1"
  by (simp add: filter_step_def Let_def split: prod.splits)

lemma filter_step_line_no: "line_no (filter_step opts json idx n doc st) = line_no st + 1"
  by (simp add: filter_step_def Let_def split: prod.splits)

lemma filter_step_ltrace:
  "ltrace (filter_step opts json idx n doc st) = ltrace st @ [Deref, Lookup (field opts)]"
  by (simp add: filter_step_def Let_def split: prod.splits)

lemma filter_step_matched:
  "matched (filter_step opts json idx n doc st) =
     matched st + (if matches (doc (field opts)) (threshold opts) then 1 else 0)"
  by (simp add: filter_step_def Let_def split: prod.splits)

lemma filter_step_out_buf:
  "out_buf (filter_step opts json idx n doc st) =
     out_buf st @ (if matches (doc (field opts)) (threshold opts) \<and> output_mode opts \<and> line_no st < n
                   then emit json idx (line_no st) else [])"
  by (simp add: filter_step_def Let_def emit_def span_def output_mode_def split: prod.splits)

lemma filter_loop_total:
  "total (filter_loop opts json idx n docs st) = total st + length docs"
  by (induction docs arbitrary: st) (simp_all add: filter_step_total)

lemma filter_loop_line_no:
  "line_no (filter_loop opts json idx n docs st) = line_no st + length docs"
  by (induction docs arbitrary: st) (simp_all add: filter_step_line_no)

lemma filter_loop_ltrace:
  "ltrace (filter_loop opts json idx n docs st) =
     ltrace st @ concat (map (\<lambda>d. [Deref, Lookup (field opts)]) docs)"
  by (induction docs arbitrary: st) (simp_all add: filter_step_ltrace)

lemma filter_loop_matched_gen:
  "matched (filter_loop opts json idx n docs st) =
     matched st + length (filter (\<lambda>d. matches (d (field opts)) (threshold opts)) docs)"
  by (induction docs arbitrary: st) (simp_all add: filter_step_matched)

lemma length_filter_nth:
  "length (filter (\<lambda>i. P (xs ! i)) [0..<length xs]) = length (filter P xs)"
proof -
  have "map (\<lambda>i. xs ! i) [0..<length xs] = xs" by (rule map_nth)
  then have "filter P xs = filter P (map (\<lambda>i. xs ! i) [0..<length xs])" by simp
  also have "\<dots> = map (\<lambda>i. xs ! i) (filter (\<lambda>i. P (xs ! i)) [0..<length xs])"
    by (simp add: filter_map comp_def)
  finally show ?thesis by (metis length_map)
qed

lemma filter_loop_matched:
  "matched (filter_loop opts json idx n docs st) = matched st + length (match_positions opts docs)"
  using length_filter_nth [of "\<lambda>d. matches (d (field opts)) (threshold opts)" docs]
  by (simp add: filter_loop_matched_gen match_positions_def)

lemma shifted_positions:
  "filter (\<lambda>i. P ((d # ds) ! (i - k)) \<and> Q i) [Suc k..<Suc k + length ds]
   = filter (\<lambda>i. P (ds ! (i - Suc k)) \<and> Q i) [Suc k..<Suc k + length ds]"
  by (rule filter_cong) (auto simp: nth_Cons' Suc_diff_Suc)

lemma filter_loop_out_buf_gen:
  "out_buf (filter_loop opts json idx n docs st) =
     out_buf st @ concat (map (emit json idx)
       (filter (\<lambda>i. matches ((docs ! (i - line_no st)) (field opts)) (threshold opts)
                     \<and> (output_mode opts \<and> i < n))
          [line_no st..<line_no st + length docs]))"
proof (induction docs arbitrary: st)
  case Nil
  show ?case by simp
next
  case (Cons d ds)
  let ?k = "line_no st"
  let ?P = "\<lambda>doc. matches (doc (field opts)) (threshold opts)"
  let ?Q = "\<lambda>i. output_mode opts \<and> i < n"
  have range: "[?k..<?k + length (d # ds)] = ?k # [Suc ?k..<Suc ?k + length ds]"
    by (simp add: upt_rec)
  have "out_buf (filter_loop opts json idx n (d # ds) st) =
        out_buf (filter_step opts json idx n d st) @ concat (map (emit json idx)
          (filter (\<lambda>i. ?P (ds ! (i - Suc ?k)) \<and> ?Q i) [Suc ?k..<Suc ?k + length ds]))"
    using Cons.IH [of "filter_step opts json idx n d st"] by (simp add: filter_step_line_no)
  also have "filter (\<lambda>i. ?P (ds ! (i - Suc ?k)) \<and> ?Q i) [Suc ?k..<Suc ?k + length ds]
           = filter (\<lambda>i. ?P ((d # ds) ! (i - ?k)) \<and> ?Q i) [Suc ?k..<Suc ?k + length ds]"
    by (rule shifted_positions [symmetric])
  finally show ?case
    unfolding range by (simp add: filter_step_out_buf)
qed

lemma filter_loop_out_buf:
  "output_mode opts \<Longrightarrow>
   out_buf (filter_loop opts json idx n docs loop_init) =
     concat (map (emit json idx) (filter (\<lambda>i. i < n) (match_positions opts docs)))"
  using filter_loop_out_buf_gen [of opts json idx n docs loop_init]
  by (simp add: loop_init_def match_positions_def conj_commute)

lemma filter_loop_out_buf_silent:
  "\<not> output_mode opts \<Longrightarrow> out_buf (filter_loop opts json idx n docs loop_init) = []"
  using filter_loop_out_buf_gen [of opts json idx n docs loop_init]
  by (simp add: loop_init_def)

lemma flush_output_closed:
  "flush_output opts (filter_loop opts json (line_index json) (length (line_index json)) docs loop_init)
     = expected_flush opts json docs"
proof (cases "output_mode opts")
  case True
  have "out_buf (filter_loop opts json (line_index json) (length (line_index json)) docs loop_init)
          = emitted opts json docs"
    using filter_loop_out_buf [OF True, of json "line_index json" "length (line_index json)" docs]
    by (simp add: emitted_def)
  then show ?thesis
    using True by (simp add: flush_output_def expected_flush_def output_mode_def)
next
  case False
  then show ?thesis
    by (auto simp add: flush_output_def expected_flush_def output_mode_def filter_loop_matched loop_init_def)
qed

lemma run_filter_success:
  assumes "filename opts = Some f" "load_file env f = Inr json" "iterate_many env json = Inr docs"
  shows "run_filter env opts =
           ([Load f, NewParser, IterateMany json, Now] @ loop_events opts docs @ [Now]
              @ expected_flush opts json docs @ [filter_report env opts json docs], Exit 0)"
proof -
  let ?st = "filter_loop opts json (line_index json) (length (line_index json)) docs loop_init"
  have tr: "ltrace ?st = loop_events opts docs"
    by (simp add: filter_loop_ltrace loop_events_def loop_init_def)
  have tot: "total ?st = length docs"
    by (simp add: filter_loop_total loop_init_def)
  have mat: "matched ?st = length (match_positions opts docs)"
    by (simp add: filter_loop_matched loop_init_def)
  have fl: "flush_output opts ?st = expected_flush opts json docs"
    by (rule flush_output_closed)
  show ?thesis
    using assms tr tot mat fl
    by (simp add: run_filter_def Let_def filter_report_def line_index_def)
qed

lemma emit_one_newline:
  assumes "i < length (line_index json)"
  shows "count_list (emit json (line_index json) i) NL = 1"
proof -
  have "line_index json ! i \<in> set (build_line_index json (length json))"
    using assms by (simp add: line_index_def)
  then have "NL \<notin> set (span json (line_index json ! i))"
    by (rule build_line_index_no_nl)
  then show ?thesis by (simp add: emit_def count_list_0_iff)
qed

lemma count_list_concat_emit:
  "\<forall>i \<in> set ps. i < length (line_index json) \<Longrightarrow>
   count_list (concat (map (emit json (line_index json)) ps)) NL = length ps"
  by (induction ps) (simp_all add: emit_one_newline)

lemma emitted_lines:
  "count_list (emitted opts json docs) NL =
     length (filter (\<lambda>i. i < length (line_index json)) (match_positions opts docs))"
  unfolding emitted_def by (rule count_list_concat_emit) simp

lemma match_positions_bound: "i \<in> set (match_positions opts docs) \<Longrightarrow> i < length docs"
  by (simp add: match_positions_def)


lemma match_positions_flags [simp]:
  "match_positions (opts\<lparr>count_only := c\<rparr>) docs = match_positions opts docs"
  "match_positions (opts\<lparr>quiet := q\<rparr>) docs = match_positions opts docs"
  by (simp_all add: match_positions_def)

lemma emitted_flags [simp]:
  "emitted (opts\<lparr>count_only := c\<rparr>) json docs = emitted opts json docs"
  "emitted (opts\<lparr>quiet := q\<rparr>) json docs = emitted opts json docs"
  by (simp_all add: emitted_def)

lemma loop_events_quiet: "filter is_write (loop_events opts docs) = []"
  by (induction docs) (simp_all add: loop_events_def)

lemma loop_events_no_stdout: "filter is_stdout (loop_events opts docs) = []"
  by (induction docs) (simp_all add: loop_events_def)

lemma loop_events_no_Now: "Now \<notin> set (loop_events opts docs)"
  by (induction docs) (simp_all add: loop_events_def)

lemma expected_flush_stdout: "filter is_stdout (expected_flush opts json docs) = expected_flush opts json docs"
  by (simp add: expected_flush_def)

lemma expected_flush_no_Now: "Now \<notin> set (expected_flush opts json docs)"
  by (simp add: expected_flush_def)

lemma run_filter_stdout:
  assumes "filename opts = Some f" "load_file env f = Inr json" "iterate_many env json = Inr docs"
  shows "filter is_stdout (fst (run_filter env opts)) = expected_flush opts json docs"
  by (simp add: run_filter_success [OF assms] loop_events_no_stdout expected_flush_stdout
      filter_report_def)

lemma stdout_lines_append: "stdout_lines (xs @ ys) = stdout_lines xs + stdout_lines ys"
  by (induction xs rule: stdout_lines.induct) simp_all

lemma stdout_lines_loop_events: "stdout_lines (loop_events opts docs) = 0"
  by (induction docs) (simp_all add: loop_events_def)

lemma run_filter_stdout_lines:
  assumes "filename opts = Some f" "load_file env f = Inr json" "iterate_many env json = Inr docs"
  shows "stdout_lines (fst (run_filter env opts)) =
           (if output_mode opts
            then length (filter (\<lambda>i. i < length (line_index json)) (match_positions opts docs))
            else 0)"
proof -
  have "stdout_lines (expected_flush opts json docs) =
          (if output_mode opts then count_list (emitted opts json docs) NL else 0)"
    by (simp add: expected_flush_def output_mode_def)
  then show ?thesis
    by (simp add: run_filter_success [OF assms] stdout_lines_append stdout_lines_loop_events
        filter_report_def emitted_lines)
qed

lemma all_positions_indexed:
  assumes "length docs \<le> n"
  shows "filter (\<lambda>i. i < n) (match_positions opts docs) = match_positions opts docs"
proof -
  have "\<forall>i \<in> set (match_positions opts docs). i < n"
    using assms match_positions_bound [of _ opts docs] by fastforce
  then show ?thesis by simp
qed

lemma split_at_Now:
  "Now \<notin> set xs \<Longrightarrow> takeWhile (\<lambda>e. e \<noteq> Now) (xs @ Now # ys) = xs"
  "Now \<notin> set xs \<Longrightarrow> dropWhile (\<lambda>e. e \<noteq> Now) (xs @ Now # ys) = Now # ys"
  by (induction xs) auto

lemma filter_trace_regions:
  assumes "tr = [Load f, NewParser, IterateMany json] @ Now # (loop_events opts docs @ Now # post)"
  shows "before_timer tr = [Load f, NewParser, IterateMany json]"
    and "timed_region tr = loop_events opts docs"
    and "after_timer tr = post"
proof -
  have pre: "Now \<notin> set [Load f, NewParser, IterateMany json]" by simp
  show "before_timer tr = [Load f, NewParser, IterateMany json]"
    unfolding before_timer_def assms by (rule split_at_Now(1) [OF pre])
  have d: "dropWhile (\<lambda>e. e \<noteq> Now) tr = Now # (loop_events opts docs @ Now # post)"
    unfolding assms by (rule split_at_Now(2) [OF pre])
  show "timed_region tr = loop_events opts docs"
    unfolding timed_region_def d by (simp add: split_at_Now(1) [OF loop_events_no_Now])
  show "after_timer tr = post"
    unfolding after_timer_def d by (simp add: split_at_Now(2) [OF loop_events_no_Now])
qed

lemma dgt_irrefl: "\<not> dgt x x"
  by (cases x) auto

subsection \<open>The concrete inputs, evaluated\<close>

lemma demo_line_index: "line_index demo_buf = [(0, 10), (11, 21), (22, 32)]"
  by (simp add: line_index_def build_line_index_def demo_buf_def NL_def)

lemma two_line_index: "line_index two_buf = [(0, 21)]"
  by (simp add: line_index_def build_line_index_def two_buf_def NL_def)

lemma demo_match_positions: "match_positions demo_opts demo_docs = [1]"
  by (simp add: match_positions_def demo_opts_def default_options_def demo_docs_def age_doc_def upt_rec)

lemma two_match_positions: "match_positions two_opts two_docs = [0, 1]"
  by (simp add: match_positions_def two_opts_def default_options_def two_docs_def age_doc_def upt_rec)

lemma demo_emitted: \<open>emitted demo_opts demo_buf demo_docs = ''{"age":35}'' @ [NL]\<close>
  by (simp add: emitted_def demo_match_positions demo_line_index emit_def span_def) (simp add: demo_buf_def)

lemma two_emitted: "emitted two_opts two_buf two_docs = two_buf"
  by (simp add: emitted_def two_match_positions two_line_index emit_def span_def) (simp add: two_buf_def)

lemma demo_success:
  "output_mode demo_opts" "filename demo_opts = Some ''data.ndjson''"
  "load_file demo_env ''data.ndjson'' = Inr demo_buf"
  "iterate_many demo_env demo_buf = Inr demo_docs"
  by (simp_all add: demo_opts_def default_options_def output_mode_def demo_env_def)

lemma two_success:
  "output_mode two_opts" "filename two_opts = Some ''two.ndjson''"
  "load_file two_env ''two.ndjson'' = Inr two_buf"
  "iterate_many two_env two_buf = Inr two_docs"
  by (simp_all add: two_opts_def default_options_def output_mode_def two_env_def)

lemma two_main: "filter_main two_env [''simdjson_bench'', ''two.ndjson''] = run_filter two_env two_opts"
  by (simp add: filter_main_def two_opts_def)

lemma two_main_count:
  "filter_main two_env [''simdjson_bench'', ''two.ndjson'', ''--count'']
     = run_filter two_env (two_opts\<lparr>count_only := True\<rparr>)"
  by (simp add: filter_main_def two_opts_def)

subsection \<open>Claims about the filter tool\<close>

text \<open>
  Claim C1, as amended. In output mode a matching document whose stream position lies inside
  the line index appends exactly the bytes \<^verbatim>\<open>buffer[start:end]\<close> of the line at that position
  followed by one newline byte, unchanged; a matching document at a position at or beyond the
  number of indexed lines appends nothing, and so does a document that does not match. After
  the loop, behind the second clock reading, the accumulated bytes are written to stdout by
  one \<^verbatim>\<open>fwrite\<close> if there are any, and nothing is written if there are none.
\<close>

theorem output_is_raw_line_bytes:
  assumes "output_mode opts"
    and "filename opts = Some f" and "load_file env f = Inr json"
    and "iterate_many env json = Inr docs"
  shows "out_buf (filter_step opts json (line_index json) (length (line_index json)) doc st)
           = out_buf st
             @ (if matches (doc (field opts)) (threshold opts) \<and> line_no st < length (line_index json)
                then span json (line_index json ! line_no st) @ [NL] else [])
         \<and> emitted opts json docs
           = concat (map (\<lambda>i. span json (line_index json ! i) @ [NL])
               (filter (\<lambda>i. i < length (line_index json)) (match_positions opts docs)))
         \<and> fst (run_filter env opts)
           = [Load f, NewParser, IterateMany json, Now] @ loop_events opts docs @ [Now]
             @ (if emitted opts json docs = [] then [] else [Fwrite (emitted opts json docs)])
             @ [filter_report env opts json docs]
         \<and> filter is_stdout (fst (run_filter env opts))
           = (if emitted opts json docs = [] then [] else [Fwrite (emitted opts json docs)])"
proof -
  have step: "out_buf (filter_step opts json (line_index json) (length (line_index json)) doc st)
           = out_buf st
             @ (if matches (doc (field opts)) (threshold opts) \<and> line_no st < length (line_index json)
                then span json (line_index json ! line_no st) @ [NL] else [])"
    using assms(1) by (simp add: filter_step_out_buf emit_def)
  have closed: "emitted opts json docs
           = concat (map (\<lambda>i. span json (line_index json ! i) @ [NL])
               (filter (\<lambda>i. i < length (line_index json)) (match_positions opts docs)))"
    by (simp add: emitted_def emit_def [abs_def])
  have fl: "expected_flush opts json docs
            = (if emitted opts json docs = [] then [] else [Fwrite (emitted opts json docs)])"
    using assms(1) by (simp add: expected_flush_def output_mode_def)
  have tr: "fst (run_filter env opts)
           = [Load f, NewParser, IterateMany json, Now] @ loop_events opts docs @ [Now]
             @ (if emitted opts json docs = [] then [] else [Fwrite (emitted opts json docs)])
             @ [filter_report env opts json docs]"
    using run_filter_success [OF assms(2-4)] fl by simp
  have out: "filter is_stdout (fst (run_filter env opts))
           = (if emitted opts json docs = [] then [] else [Fwrite (emitted opts json docs)])"
    using run_filter_stdout [OF assms(2-4)] fl by simp
  show ?thesis using step closed tr out by blast
qed

theorem output_is_raw_line_bytes_witness:
  \<open>filter is_stdout (fst (run_filter demo_env demo_opts)) = [Fwrite (''{"age":35}'' @ [NL])]
   \<and> span demo_buf (line_index demo_buf ! 1) = ''{"age":35}''\<close>
proof -
  have \<open>span demo_buf (line_index demo_buf ! 1) = ''{"age":35}''\<close>
    by (simp add: demo_line_index span_def) (simp add: demo_buf_def)
  then show ?thesis
    using output_is_raw_line_bytes [OF demo_success, of "age_doc 35" loop_init,
        THEN conjunct2, THEN conjunct2, THEN conjunct2]
    by (simp add: demo_emitted)
qed

text \<open>
  The claim as first stated fails on a line that holds two matching documents: the second
  one matches and appends nothing, and stdout receives the line once.
\<close>

theorem second_document_on_line_appends_nothing:
  "matches ((two_docs ! 1) (field two_opts)) (threshold two_opts)
   \<and> out_buf two_after_first = two_buf
   \<and> out_buf (filter_step two_opts two_buf (line_index two_buf) (length (line_index two_buf))
        (two_docs ! 1) two_after_first) = two_buf
   \<and> filter is_stdout (fst (filter_main two_env [''simdjson_bench'', ''two.ndjson'']))
     = [Fwrite two_buf]"
proof -
  have a: "matches ((two_docs ! 1) (field two_opts)) (threshold two_opts)"
    by (simp add: two_docs_def two_opts_def default_options_def age_doc_def)
  have m: "matches ((two_docs ! 0) (field two_opts)) (threshold two_opts)"
    by (simp add: two_docs_def two_opts_def default_options_def age_doc_def)
  have "emit two_buf (line_index two_buf) 0 = two_buf"
    by (simp add: emit_def two_line_index span_def) (simp add: two_buf_def)
  then have b: "out_buf two_after_first = two_buf"
    using m two_success(1)
    by (simp add: two_after_first_def filter_step_out_buf two_line_index loop_init_def)
  have c: "out_buf (filter_step two_opts two_buf (line_index two_buf) (length (line_index two_buf))
        (two_docs ! 1) two_after_first) = two_buf"
    using b
    by (simp add: filter_step_out_buf two_after_first_def filter_step_line_no two_line_index
        loop_init_def)
  have "two_buf \<noteq> []" by (simp add: two_buf_def)
  then have d: "filter is_stdout (fst (filter_main two_env [''simdjson_bench'', ''two.ndjson'']))
                  = [Fwrite two_buf]"
    using run_filter_stdout [OF two_success(2-4)] two_success(1)
    by (simp add: two_main expected_flush_def two_emitted output_mode_def)
  show ?thesis using a b c d by blast
qed

text \<open>
  Claim C3. The predicate \<^verbatim>\<open>ok && val > threshold\<close> is false on a miss, and on a hit it is
  the strict IEEE comparison: true exactly when the value is greater than the threshold
  (for finite numbers, when \<open>t < v\<close>), so a value equal to the threshold does not match. It
  is defined on every lookup result, and the loop counts in \<^verbatim>\<open>matched\<close> exactly the documents
  that satisfy it.
\<close>

theorem filter_predicate_strict:
  "\<not> matches Miss thr
   \<and> (matches (Hit val) thr \<longleftrightarrow> dgt val thr)
   \<and> (matches (Hit (Finite v)) (Finite t) \<longleftrightarrow> t < v)
   \<and> \<not> matches (Hit thr) thr
   \<and> matched (filter_step opts json idx n doc st)
       = matched st + (if matches (doc (field opts)) (threshold opts) then 1 else 0)
   \<and> matched (filter_loop opts json idx n docs loop_init) = length (match_positions opts docs)"
  by (simp add: dgt_irrefl filter_step_matched filter_loop_matched loop_init_def)

theorem filter_predicate_strict_witness:
  "\<not> matches Miss (Finite 30)
   \<and> \<not> matches (Hit (Finite 30)) (Finite 30)
   \<and> matches (Hit (Finite 35)) (Finite 30)
   \<and> \<not> matches (Hit (Finite 25)) (Finite 30)
   \<and> matched (filter_loop demo_opts demo_buf (line_index demo_buf) 3 demo_docs loop_init) = 1"
  using filter_predicate_strict [of "Finite 30" "Finite 35" 35 30 demo_opts demo_buf
      "line_index demo_buf" 3 "age_doc 35" loop_init demo_docs]
  by (simp add: demo_match_positions)

text \<open>
  Claim C4, as amended. Under \<^verbatim>\<open>--count\<close> the integer printed is the number of matching
  documents; without \<^verbatim>\<open>--count\<close> and \<^verbatim>\<open>--quiet\<close> the number of lines emitted is the number
  of matching documents whose position lies inside the line index. The two agree whenever the
  stream yields no more documents than the buffer has non-empty lines.
\<close>

theorem count_equals_emitted_lines:
  assumes "filename opts = Some f" and "load_file env f = Inr json"
    and "iterate_many env json = Inr docs"
  shows "filter is_stdout (fst (run_filter env (opts\<lparr>count_only := True\<rparr>)))
           = [PrintCount (length (match_positions opts docs))]
         \<and> stdout_lines (fst (run_filter env (opts\<lparr>count_only := False, quiet := False\<rparr>)))
           = length (filter (\<lambda>i. i < length (line_index json)) (match_positions opts docs))
         \<and> (length docs \<le> length (line_index json) \<longrightarrow>
              filter is_stdout (fst (run_filter env (opts\<lparr>count_only := True\<rparr>)))
              = [PrintCount (stdout_lines
                   (fst (run_filter env (opts\<lparr>count_only := False, quiet := False\<rparr>))))])"
proof -
  have c: "filter is_stdout (fst (run_filter env (opts\<lparr>count_only := True\<rparr>)))
           = [PrintCount (length (match_positions opts docs))]"
    using run_filter_stdout [of "opts\<lparr>count_only := True\<rparr>" f env json docs] assms
    by (simp add: expected_flush_def output_mode_def)
  have l: "stdout_lines (fst (run_filter env (opts\<lparr>count_only := False, quiet := False\<rparr>)))
           = length (filter (\<lambda>i. i < length (line_index json)) (match_positions opts docs))"
    using run_filter_stdout_lines [of "opts\<lparr>count_only := False, quiet := False\<rparr>" f env json docs] assms
    by (simp add: output_mode_def)
  show ?thesis
    using c l all_positions_indexed [of docs "length (line_index json)" opts] by simp
qed

theorem count_equals_emitted_lines_witness:
  "length demo_docs \<le> length (line_index demo_buf)
   \<and> filter is_stdout (fst (run_filter demo_env (demo_opts\<lparr>count_only := True\<rparr>))) = [PrintCount 1]
   \<and> stdout_lines (fst (run_filter demo_env (demo_opts\<lparr>count_only := False, quiet := False\<rparr>))) = 1"
proof -
  have le: "length demo_docs \<le> length (line_index demo_buf)"
    by (simp add: demo_line_index demo_docs_def)
  show ?thesis
    using count_equals_emitted_lines [OF demo_success(2-4)] le
    by (simp add: demo_match_positions demo_line_index)
qed

text \<open>
  The claim as first stated fails on the line that holds two matching documents: the count
  printed is 2 and one line is emitted.
\<close>

theorem count_exceeds_emitted_lines:
  "filter is_stdout (fst (filter_main two_env [''simdjson_bench'', ''two.ndjson'', ''--count'']))
     = [PrintCount 2]
   \<and> stdout_lines (fst (filter_main two_env [''simdjson_bench'', ''two.ndjson''])) = 1"
proof -
  have a: "filter is_stdout (fst (filter_main two_env [''simdjson_bench'', ''two.ndjson'', ''--count'']))
     = [PrintCount 2]"
    using run_filter_stdout [of "two_opts\<lparr>count_only := True\<rparr>" "''two.ndjson''" two_env two_buf two_docs]
      two_success
    by (simp add: two_main_count expected_flush_def output_mode_def two_match_positions)
  have b: "stdout_lines (fst (filter_main two_env [''simdjson_bench'', ''two.ndjson''])) = 1"
    using run_filter_stdout_lines [OF two_success(2-4)] two_success(1)
    by (simp add: two_main two_line_index two_match_positions)
  show ?thesis using a b by blast
qed

text \<open>
  Claim C5. In a completed run of the filter tool the clock is read twice; the actions
  between the two readings are exactly those of the streaming loop and none of them writes to
  stdout or stderr; the flush of the output buffer, the printing of the count and the report
  all follow the second reading, in every mode.
\<close>

theorem timed_region_is_streaming_pass:
  assumes "filename opts = Some f" and "load_file env f = Inr json"
    and "iterate_many env json = Inr docs"
  shows "fst (run_filter env opts)
           = before_timer (fst (run_filter env opts)) @ [Now]
             @ timed_region (fst (run_filter env opts)) @ [Now]
             @ after_timer (fst (run_filter env opts))
         \<and> before_timer (fst (run_filter env opts)) = [Load f, NewParser, IterateMany json]
         \<and> timed_region (fst (run_filter env opts)) = loop_events opts docs
         \<and> filter is_write (timed_region (fst (run_filter env opts))) = []
         \<and> after_timer (fst (run_filter env opts))
           = flush_output opts (filter_loop opts json (line_index json) (length (line_index json)) docs loop_init)
             @ [filter_report env opts json docs]
         \<and> Now \<notin> set (after_timer (fst (run_filter env opts)))
         \<and> filter is_stdout (fst (run_filter env opts))
           = filter is_stdout (after_timer (fst (run_filter env opts)))"
proof -
  let ?tr = "fst (run_filter env opts)"
  let ?post = "expected_flush opts json docs @ [filter_report env opts json docs]"
  have tr: "?tr = [Load f, NewParser, IterateMany json] @ Now # (loop_events opts docs @ Now # ?post)"
    by (simp add: run_filter_success [OF assms])
  note regions = filter_trace_regions [OF tr]
  have 1: "?tr = before_timer ?tr @ [Now] @ timed_region ?tr @ [Now] @ after_timer ?tr"
    unfolding regions using tr by simp
  have 4: "filter is_write (timed_region ?tr) = []"
    unfolding regions by (rule loop_events_quiet)
  have 5: "after_timer ?tr
           = flush_output opts (filter_loop opts json (line_index json) (length (line_index json)) docs loop_init)
             @ [filter_report env opts json docs]"
    unfolding regions by (simp add: flush_output_closed)
  have 6: "Now \<notin> set (after_timer ?tr)"
    unfolding regions by (simp add: expected_flush_no_Now filter_report_def)
  have 7: "filter is_stdout ?tr = filter is_stdout (after_timer ?tr)"
    unfolding regions(3) by (simp add: run_filter_stdout [OF assms] expected_flush_stdout filter_report_def)
  show ?thesis using 1 regions(1,2) 4 5 6 7 by blast
qed

theorem timed_region_is_streaming_pass_witness:
  \<open>timed_region (fst (run_filter demo_env demo_opts))
     = [Deref, Lookup ''age'', Deref, Lookup ''age'', Deref, Lookup ''age'']
   \<and> filter is_stdout (after_timer (fst (run_filter demo_env demo_opts)))
     = [Fwrite (''{"age":35}'' @ [NL])]\<close>
proof -
  note th = timed_region_is_streaming_pass [OF demo_success(2-4)]
  have ev: "loop_events demo_opts demo_docs
              = [Deref, Lookup ''age'', Deref, Lookup ''age'', Deref, Lookup ''age'']"
    by (simp add: loop_events_def demo_docs_def demo_opts_def default_options_def)
  have fl: \<open>expected_flush demo_opts demo_buf demo_docs = [Fwrite (''{"age":35}'' @ [NL])]\<close>
    using demo_success(1) by (simp add: expected_flush_def demo_emitted output_mode_def)
  have "timed_region (fst (run_filter demo_env demo_opts)) = loop_events demo_opts demo_docs"
    using th by blast
  moreover have "filter is_stdout (after_timer (fst (run_filter demo_env demo_opts)))
                   = filter is_stdout (fst (run_filter demo_env demo_opts))"
    using th by simp
  ultimately show ?thesis
    by (simp only: ev fl run_filter_stdout [OF demo_success(2-4)] simp_thms)
qed


lemma parse_args_count_kept: "count_only opts \<Longrightarrow> count_only (parse_args env args opts)"
  by (induction env args opts rule: parse_args.induct) simp_all

lemma parse_args_quiet_kept: "quiet opts \<Longrightarrow> quiet (parse_args env args opts)"
  by (induction env args opts rule: parse_args.induct) simp_all

text \<open>
  Claim C10. With \<^verbatim>\<open>--count\<close> set, whatever \<^verbatim>\<open>--quiet\<close> is, the only thing a completed run
  writes to stdout is the match count, printed once; no record bytes are accumulated or
  written. Giving both flags sets both options, in either order.
\<close>

theorem count_decides_stdout:
  assumes "count_only opts"
    and "filename opts = Some f" and "load_file env f = Inr json"
    and "iterate_many env json = Inr docs"
  shows "filter is_stdout (fst (run_filter env opts)) = [PrintCount (length (match_positions opts docs))]
         \<and> filter is_stdout (fst (run_filter env (opts\<lparr>quiet := True\<rparr>)))
           = filter is_stdout (fst (run_filter env (opts\<lparr>quiet := False\<rparr>)))
         \<and> out_buf (filter_loop opts json (line_index json) (length (line_index json)) docs loop_init) = []
         \<and> count_only (parse_args env (''--count'' # ''--quiet'' # args) opts0)
         \<and> quiet (parse_args env (''--count'' # ''--quiet'' # args) opts0)
         \<and> count_only (parse_args env (''--quiet'' # ''--count'' # args) opts0)
         \<and> quiet (parse_args env (''--quiet'' # ''--count'' # args) opts0)"
proof -
  have a: "filter is_stdout (fst (run_filter env opts)) = [PrintCount (length (match_positions opts docs))]"
    using assms(1) run_filter_stdout [OF assms(2-4)]
    by (simp add: expected_flush_def output_mode_def)
  have b: "filter is_stdout (fst (run_filter env (opts\<lparr>quiet := True\<rparr>)))
           = filter is_stdout (fst (run_filter env (opts\<lparr>quiet := False\<rparr>)))"
    using assms run_filter_stdout [of "opts\<lparr>quiet := True\<rparr>" f env json docs]
      run_filter_stdout [of "opts\<lparr>quiet := False\<rparr>" f env json docs]
    by (simp add: expected_flush_def output_mode_def)
  have c: "out_buf (filter_loop opts json (line_index json) (length (line_index json)) docs loop_init) = []"
    using assms(1) by (simp add: filter_loop_out_buf_silent output_mode_def)
  have d: "count_only (parse_args env (''--count'' # ''--quiet'' # args) opts0)"
       "quiet (parse_args env (''--count'' # ''--quiet'' # args) opts0)"
       "count_only (parse_args env (''--quiet'' # ''--count'' # args) opts0)"
       "quiet (parse_args env (''--quiet'' # ''--count'' # args) opts0)"
    by (simp_all add: parse_args_count_kept parse_args_quiet_kept)
  show ?thesis using a b c d by blast
qed

lemma demo_main_count_quiet:
  "filter_main demo_env [''simdjson_bench'', ''--count'', ''--quiet'', ''data.ndjson'']
     = run_filter demo_env (demo_opts\<lparr>count_only := True, quiet := True\<rparr>)"
  by (simp add: filter_main_def demo_opts_def default_options_def)

theorem count_decides_stdout_witness:
  "filter is_stdout (fst (filter_main demo_env [''simdjson_bench'', ''--count'', ''--quiet'', ''data.ndjson'']))
     = [PrintCount 1]"
proof -
  have "count_only (demo_opts\<lparr>count_only := True, quiet := True\<rparr>)"
    and "filename (demo_opts\<lparr>count_only := True, quiet := True\<rparr>) = Some ''data.ndjson''"
    using demo_success(2) by simp_all
  from count_decides_stdout [OF this demo_success(3,4), THEN conjunct1]
  show ?thesis by (simp add: demo_main_count_quiet demo_match_positions)
qed

subsection \<open>The tokenizer tool and the exit codes\<close>

lemma warmup_loop_closed: "warmup_loop docs = map (\<lambda>d. Deref) docs"
  by (induction docs) simp_all

lemma warmup_closed:
  "warmup env json = [NewParser, IterateMany json] @ map (\<lambda>d. Deref) (pass_docs env json)"
  by (simp add: warmup_def pass_docs_def warmup_loop_closed split: sum.splits)

lemma filter_derefs:
  "filter P (map (\<lambda>d. Deref) docs) = (if P Deref then map (\<lambda>d. Deref) docs else [])"
  by (induction docs) simp_all

lemma tokenize_loop_closed: "tokenize_loop ds c tr = (c + length ds, tr @ pass_lookups ds)"
  by (induction ds arbitrary: c tr) (simp_all add: pass_lookups_def)

lemma timed_iterations_step:
  "iter < iters \<Longrightarrow>
   timed_iterations env json iters iter st = timed_iterations env json iters (iter + 1) (pass_step env json st)"
  by (subst timed_iterations.simps)
     (simp add: pass_step_def pass_docs_def timed_pass_def tokenize_loop_closed Let_def
        pass_lookups_def del: timed_iterations.simps split: sum.splits)

lemma timed_iterations_done:
  "\<not> iter < iters \<Longrightarrow> timed_iterations env json iters iter st = st"
  by (subst timed_iterations.simps) (simp del: timed_iterations.simps)

lemma timed_iterations_funpow:
  "nat (iters - iter) = n \<Longrightarrow>
   timed_iterations env json iters iter st = (pass_step env json ^^ n) st"
proof (induction n arbitrary: iter st)
  case 0
  then show ?case by (simp add: timed_iterations_done)
next
  case (Suc n)
  then have lt: "iter < iters" and n: "nat (iters - (iter + 1)) = n" by simp_all
  show ?case
    using Suc.IH [OF n, of "pass_step env json st"] timed_iterations_step [OF lt, of env json st]
    by (simp add: funpow_swap1)
qed

lemma pass_step_fields:
  "reads (pass_step env json st) = reads st + 2"
  "trace (pass_step env json st) = trace st @ timed_pass env json"
  "run_times (pass_step env json st) = run_times st @ [clock env (reads st + 1) - clock env (reads st)]"
  "total_time (pass_step env json st) = total_time st + (clock env (reads st + 1) - clock env (reads st))"
  "total_docs (pass_step env json st) = (total_docs st + length (pass_docs env json)) mod size_max"
  by (simp_all add: pass_step_def)

lemma funpow_reads: "reads ((pass_step env json ^^ n) st) = reads st + 2 * n"
  by (induction n) (simp_all add: pass_step_fields)

lemma funpow_trace:
  "trace ((pass_step env json ^^ n) st) = trace st @ concat (replicate n (timed_pass env json))"
  by (induction n) (simp_all add: pass_step_fields replicate_append_same [symmetric])

lemma funpow_run_times:
  "run_times ((pass_step env json ^^ n) st) =
     run_times st @ map (\<lambda>k. clock env (reads st + 2 * k + 1) - clock env (reads st + 2 * k)) [0..<n]"
  by (induction n) (simp_all add: pass_step_fields funpow_reads)

lemma funpow_total_time:
  "total_time ((pass_step env json ^^ n) st) =
     total_time st + sum_list (map (\<lambda>k. clock env (reads st + 2 * k + 1) - clock env (reads st + 2 * k)) [0..<n])"
  by (induction n) (simp_all add: pass_step_fields funpow_reads)

lemma funpow_total_docs:
  "total_docs st < size_max \<Longrightarrow>
   total_docs ((pass_step env json ^^ n) st) = (total_docs st + n * length (pass_docs env json)) mod size_max"
proof (induction n)
  case 0
  then show ?case by simp
next
  case (Suc n)
  let ?d = "length (pass_docs env json)"
  have "total_docs ((pass_step env json ^^ Suc n) st)
          = ((total_docs st + n * ?d) mod size_max + ?d) mod size_max"
    using Suc by (simp add: pass_step_fields)
  also have "\<dots> = (total_docs st + n * ?d + ?d) mod size_max"
    by (rule mod_add_left_eq)
  also have "total_docs st + n * ?d + ?d = total_docs st + Suc n * ?d"
    by simp
  finally show ?case .
qed

lemma best_loop_min: "best_loop ts b = Min (insert b (set ts))"
proof (induction ts arbitrary: b)
  case Nil
  show ?case by simp
next
  case (Cons t ts)
  have "(if t < b then t else b) = min t b" by (simp add: min_def)
  then have "best_loop (t # ts) b = Min (insert (min t b) (set ts))"
    using Cons.IH [of "min t b"] by simp
  also have "\<dots> = Min (insert b (set (t # ts)))"
  proof (cases "ts = []")
    case True
    then show ?thesis by (simp add: min.commute)
  next
    case False
    then have "Min (insert (min t b) (set ts)) = min (min t b) (Min (set ts))" by simp
    also have "\<dots> = min b (min t (Min (set ts)))" by (simp add: min.commute min.left_commute)
    also have "\<dots> = Min (insert b (insert t (set ts)))" using False by simp
    finally show ?thesis by simp
  qed
  finally show ?case .
qed

lemma best_loop_first: "best_loop (t # ts) t = Min (set (t # ts))"
  by (simp add: best_loop_min)

lemma tok_iters_bounds: "tok_iters env argv < 2147483648"
proof -
  have "sint (atoi env (argv ! 2)) < 2 ^ (LENGTH(32) - 1)" by (rule sint_lt)
  then show ?thesis by (simp add: tok_iters_def)
qed

lemma tok_final_closed:
  "tok_final env argv json =
     (pass_step env json ^^ nat (tok_iters env argv)) (tok_init (tok_prefix env argv json))"
  unfolding tok_final_def by (rule timed_iterations_funpow) simp

lemma tok_final_fields:
  "trace (tok_final env argv json) =
     tok_prefix env argv json @ concat (replicate (nat (tok_iters env argv)) (timed_pass env json))"
  "run_times (tok_final env argv json) = run_times_of env (nat (tok_iters env argv))"
  "total_time (tok_final env argv json) = sum_list (run_times_of env (nat (tok_iters env argv)))"
  "total_docs (tok_final env argv json) =
     (nat (tok_iters env argv) * length (pass_docs env json)) mod size_max"
  "reads (tok_final env argv json) = 2 * nat (tok_iters env argv)"
  by (simp_all add: tok_final_closed funpow_trace funpow_run_times funpow_total_time funpow_total_docs
      funpow_reads tok_init_def run_times_of_def elapsed_of_def [abs_def] size_max_def)

lemma tokenizer_main_loaded:
  assumes "2 \<le> length argv" and "load_file env (argv ! 1) = Inr json"
  shows "tokenizer_main env argv = report (length json) (tok_iters env argv) (tok_final env argv json)"
  using assms
  by (simp add: tokenizer_main_def Let_def tok_final_def tok_prefix_def tok_iters_def
      warmup_closed del: timed_iterations.simps)

lemma run_times_of_Cons: "0 < n \<Longrightarrow> run_times_of env n = elapsed_of env 0 # tl (run_times_of env n)"
  by (cases n) (simp_all add: run_times_of_def upt_rec del: upt_Suc)

lemma divisor_is_iters:
  assumes "1 \<le> tok_iters env argv"
  shows "nat (tok_iters env argv mod int size_max) = nat (tok_iters env argv)"
proof -
  have "tok_iters env argv < int size_max"
    using tok_iters_bounds [of env argv] by (simp add: size_max_def)
  then show ?thesis using assms by simp
qed

lemma report_closed:
  assumes "1 \<le> tok_iters env argv"
  shows "report (length json) (tok_iters env argv) (tok_final env argv json) =
     (trace (tok_final env argv json)
       @ [Stderr (TokenizerReport (length json) (tok_iters env argv)
            (docs_per_iter env json (nat (tok_iters env argv)))
            (Min (set (run_times_of env (nat (tok_iters env argv)))))
            (gb_per_sec (length json)
               (Finite (Min (set (run_times_of env (nat (tok_iters env argv)))))))
            (ddiv (Finite (sum_list (run_times_of env (nat (tok_iters env argv)))))
               (Finite (real_of_int (tok_iters env argv))))
            (gb_per_sec (length json)
               (ddiv (Finite (sum_list (run_times_of env (nat (tok_iters env argv)))))
                  (Finite (real_of_int (tok_iters env argv)))))),
          PrintSummary
            (gb_per_sec (length json)
               (Finite (Min (set (run_times_of env (nat (tok_iters env argv)))))))
            (Min (set (run_times_of env (nat (tok_iters env argv)))))
            (docs_per_iter env json (nat (tok_iters env argv)))],
      Exit 0)"
proof -
  let ?n = "nat (tok_iters env argv)"
  have pos: "0 < ?n" using assms by simp
  obtain t ts where ts: "run_times_of env ?n = t # ts"
    using run_times_of_Cons [OF pos] by blast
  have best: "best_loop (t # ts) t = Min (set (run_times_of env ?n))"
    by (simp only: ts best_loop_first)
  have d: "nat (tok_iters env argv mod int size_max) = ?n"
    by (rule divisor_is_iters [OF assms])
  show ?thesis
    using pos best
    by (simp add: report_def tok_final_fields ts d docs_per_iter_def Let_def
        del: best_loop.simps)
qed

lemma report_undefined:
  assumes "\<not> 1 \<le> tok_iters env argv"
  shows "report (length json) (tok_iters env argv) (tok_final env argv json)
           = (tok_prefix env argv json, Undefined)"
proof -
  have "nat (tok_iters env argv) = 0" using assms by simp
  then show ?thesis
    by (simp add: report_def tok_final_fields run_times_of_def)
qed

lemma timed_passes_no_load: "filter is_load (concat (replicate n (timed_pass env json))) = []"
proof -
  have "filter is_load (pass_lookups ds) = []" for ds
    by (induction ds) (simp_all add: pass_lookups_def)
  then have "filter is_load (timed_pass env json) = []" by (simp add: timed_pass_def)
  then show ?thesis by (induction n) simp_all
qed

lemma tok_prefix_no_Now: "Now \<notin> set (tok_prefix env argv json)"
  by (auto simp add: tok_prefix_def)

lemma tok_prefix_loads: "filter is_load (tok_prefix env argv json) = [Load (argv ! 1)]"
  by (simp add: tok_prefix_def filter_derefs)

lemma gb_per_sec_as_specified:
  "gb_per_sec fs e = ddiv (ddiv (Finite (real fs)) e) (Finite 1000000000)"
  by (cases e) (simp_all add: gb_per_sec_def)

lemma tokenizer_main_closed:
  assumes "2 \<le> length argv" and "load_file env (argv ! 1) = Inr json"
  shows "tokenizer_main env argv =
           (if 1 \<le> tok_iters env argv
            then (tok_prefix env argv json
                    @ concat (replicate (nat (tok_iters env argv)) (timed_pass env json))
                    @ tok_report env argv json, Exit 0)
            else (tok_prefix env argv json, Undefined))"
proof (cases "1 \<le> tok_iters env argv")
  case True
  then have "real_of_int (tok_iters env argv) = real (nat (tok_iters env argv))" by simp
  then show ?thesis
    using True
    by (simp add: tokenizer_main_loaded [OF assms] report_closed [OF True] tok_final_fields
        tok_report_def Let_def)
next
  case False
  then show ?thesis
    by (simp add: tokenizer_main_loaded [OF assms] report_undefined [OF False])
qed

lemma tokenizer_main_failed:
  assumes "tok_failure env argv"
  shows "snd (tokenizer_main env argv) = Exit 1"
    and "is_diagnostic (last (fst (tokenizer_main env argv)))"
    and "Now \<notin> set (fst (tokenizer_main env argv))"
    and "filter is_stdout (fst (tokenizer_main env argv)) = []"
  using assms
  by (auto simp add: tokenizer_main_def tok_failure_def Let_def split: sum.splits
      simp del: timed_iterations.simps)

lemma run_filter_failed:
  assumes "filter_failure env opts"
  shows "snd (run_filter env opts) = Exit 1"
    and "is_diagnostic (last (fst (run_filter env opts)))"
    and "Now \<notin> set (fst (run_filter env opts))"
    and "filter is_stdout (fst (run_filter env opts)) = []"
  using assms
  by (auto simp add: run_filter_def filter_failure_def Let_def split: option.splits sum.splits)

lemma run_filter_not_failed:
  assumes "\<not> filter_failure env opts"
  shows "snd (run_filter env opts) = Exit 0"
  using assms
  by (auto simp add: run_filter_def filter_failure_def Let_def split: option.splits sum.splits)

lemma run_times_of_positive:
  assumes "\<forall>k. clock env k < clock env (Suc k)" and "0 < n"
  shows "0 < Min (set (run_times_of env n))" and "0 < sum_list (run_times_of env n) / real n"
proof -
  have el: "0 < elapsed_of env k" for k
    using assms(1) by (simp add: elapsed_of_def)
  have ne: "run_times_of env n \<noteq> []" using assms(2) by (simp add: run_times_of_def)
  have all: "\<forall>t \<in> set (run_times_of env n). 0 < t"
    using el by (auto simp: run_times_of_def)
  show "0 < Min (set (run_times_of env n))"
    using ne all by simp
  have "0 < sum_list (run_times_of env m)" if "0 < m" for m
    using that
  proof (induction m)
    case 0
    then show ?case by simp
  next
    case (Suc m)
    have "sum_list (run_times_of env (Suc m)) = sum_list (run_times_of env m) + elapsed_of env m"
      by (simp add: run_times_of_def)
    moreover have "0 \<le> sum_list (run_times_of env m)"
      using Suc.IH by (cases m) (simp_all add: run_times_of_def less_imp_le)
    ultimately show ?case using el [of m] by simp
  qed
  then show "0 < sum_list (run_times_of env n) / real n"
    using assms(2) by simp
qed

text \<open>
  Claim C6, as amended. The filter tool exits with code 1 exactly when the file name is
  missing, the file cannot be loaded or the document stream cannot be set up, and with code 0
  otherwise; in these cases the last action is the diagnostic on stderr, the clock has not
  been read and nothing has gone to stdout. The tokenizer tool exits with code 1 exactly
  when the file name is missing or the file cannot be loaded, again after a diagnostic and
  before any clock reading; a stream that cannot be set up is not one of its failure cases,
  and with a file loaded and at least one iteration it exits with code 0.
\<close>

theorem failure_exit_codes:
  "snd (filter_main env argv)
     = (if filter_failure env (parse_args env (tl argv) default_options) then Exit 1 else Exit 0)
   \<and> (filter_failure env (parse_args env (tl argv) default_options) \<longrightarrow>
        is_diagnostic (last (fst (filter_main env argv)))
        \<and> Now \<notin> set (fst (filter_main env argv))
        \<and> filter is_stdout (fst (filter_main env argv)) = [])
   \<and> (snd (tokenizer_main env targv) = Exit 1 \<longleftrightarrow> tok_failure env targv)
   \<and> (tok_failure env targv \<longrightarrow>
        is_diagnostic (last (fst (tokenizer_main env targv)))
        \<and> Now \<notin> set (fst (tokenizer_main env targv))
        \<and> filter is_stdout (fst (tokenizer_main env targv)) = [])
   \<and> (\<not> tok_failure env targv \<and> 1 \<le> tok_iters env targv \<longrightarrow>
        snd (tokenizer_main env targv) = Exit 0)"
proof -
  let ?opts = "parse_args env (tl argv) default_options"
  have f1: "snd (filter_main env argv) = (if filter_failure env ?opts then Exit 1 else Exit 0)"
    using run_filter_failed(1) [of env ?opts] run_filter_not_failed [of env ?opts]
    by (simp add: filter_main_def)
  have f2: "filter_failure env ?opts \<longrightarrow>
        is_diagnostic (last (fst (filter_main env argv)))
        \<and> Now \<notin> set (fst (filter_main env argv))
        \<and> filter is_stdout (fst (filter_main env argv)) = []"
    using run_filter_failed(2-4) [of env ?opts] by (simp add: filter_main_def)
  have t0: "snd (tokenizer_main env targv) \<noteq> Exit 1" if "\<not> tok_failure env targv"
  proof -
    from that obtain json where ok: "2 \<le> length targv" "load_file env (targv ! 1) = Inr json"
      by (auto simp: tok_failure_def split: sum.splits)
    show ?thesis by (simp add: tokenizer_main_closed [OF ok])
  qed
  have t1: "snd (tokenizer_main env targv) = Exit 1 \<longleftrightarrow> tok_failure env targv"
    using t0 tokenizer_main_failed(1) [of env targv] by blast
  have t2: "tok_failure env targv \<longrightarrow>
        is_diagnostic (last (fst (tokenizer_main env targv)))
        \<and> Now \<notin> set (fst (tokenizer_main env targv))
        \<and> filter is_stdout (fst (tokenizer_main env targv)) = []"
    using tokenizer_main_failed(2-4) [of env targv] by blast
  have t3: "\<not> tok_failure env targv \<and> 1 \<le> tok_iters env targv \<longrightarrow>
        snd (tokenizer_main env targv) = Exit 0"
  proof (intro impI, elim conjE)
    assume nf: "\<not> tok_failure env targv" and it: "1 \<le> tok_iters env targv"
    from nf obtain json where ok: "2 \<le> length targv" "load_file env (targv ! 1) = Inr json"
      by (auto simp: tok_failure_def split: sum.splits)
    show "snd (tokenizer_main env targv) = Exit 0"
      using it by (simp add: tokenizer_main_closed [OF ok])
  qed
  show ?thesis using f1 f2 t1 t2 t3 by blast
qed

lemma fail_env_facts:
  "load_file fail_env ''data.ndjson'' = Inr demo_buf"
  "iterate_many fail_env demo_buf = Inl 2"
  "tok_iters fail_env [''tokenizer_bench'', ''data.ndjson'', ''2''] = 2"
  "pass_docs fail_env demo_buf = []"
  by (simp_all add: fail_env_def demo_env_def tok_iters_def pass_docs_def)

lemma demo_tok_facts:
  "load_file demo_env ''data.ndjson'' = Inr demo_buf"
  "tok_iters demo_env [''tokenizer_bench'', ''data.ndjson'', ''2''] = 2"
  "pass_docs demo_env demo_buf = demo_docs"
  "length demo_buf = 33"
  by (simp_all add: demo_env_def tok_iters_def pass_docs_def demo_buf_def)

theorem failure_exit_codes_witness:
  "filter_failure demo_env (parse_args demo_env (tl [''simdjson_bench'']) default_options)
   \<and> snd (filter_main demo_env [''simdjson_bench'']) = Exit 1
   \<and> fst (filter_main demo_env [''simdjson_bench'']) = [Stderr Usage]
   \<and> tok_failure demo_env [''tokenizer_bench'', ''missing.ndjson'']
   \<and> snd (tokenizer_main demo_env [''tokenizer_bench'', ''missing.ndjson'']) = Exit 1
   \<and> \<not> tok_failure demo_env [''tokenizer_bench'', ''data.ndjson'', ''2'']
   \<and> snd (tokenizer_main demo_env [''tokenizer_bench'', ''data.ndjson'', ''2'']) = Exit 0"
proof -
  have a: "filter_failure demo_env (parse_args demo_env (tl [''simdjson_bench'']) default_options)"
    by (simp add: filter_failure_def default_options_def)
  have b: "tok_failure demo_env [''tokenizer_bench'', ''missing.ndjson'']"
    by (simp add: tok_failure_def demo_env_def)
  have c: "\<not> tok_failure demo_env [''tokenizer_bench'', ''data.ndjson'', ''2'']"
    by (simp add: tok_failure_def demo_env_def)
  have d: "fst (filter_main demo_env [''simdjson_bench'']) = [Stderr Usage]"
    by (simp add: filter_main_def run_filter_def default_options_def)
  show ?thesis
    using a b c d
      failure_exit_codes [of demo_env "[''simdjson_bench'']" "[''tokenizer_bench'', ''missing.ndjson'']"]
      failure_exit_codes [of demo_env "[''simdjson_bench'']" "[''tokenizer_bench'', ''data.ndjson'', ''2'']"]
    by (simp add: demo_tok_facts)
qed

text \<open>
  The claim as first stated fails for the tokenizer tool: with \<^verbatim>\<open>iterate_many\<close> reporting an
  error on every pass, inside the timed region, no diagnostic is written and the exit code
  is 0.
\<close>

theorem tokenizer_ignores_stream_setup_failure:
  "load_file fail_env ''data.ndjson'' = Inr demo_buf
   \<and> iterate_many fail_env demo_buf = Inl 2
   \<and> tokenizer_main fail_env [''tokenizer_bench'', ''data.ndjson'', ''2'']
     = ([Load ''data.ndjson'', Stderr (FileLoaded 33), NewParser, IterateMany demo_buf,
         Stderr (Running 2),
         NewParser, Now, IterateMany demo_buf, Now,
         NewParser, Now, IterateMany demo_buf, Now,
         Stderr (TokenizerReport 33 2 0 1 (Finite (33 / 1000000000)) (Finite 1)
           (Finite (33 / 1000000000))),
         PrintSummary (Finite (33 / 1000000000)) 1 0],
        Exit 0)"
proof -
  have ok: "2 \<le> length [''tokenizer_bench'', ''data.ndjson'', ''2'']"
    "load_file fail_env ([''tokenizer_bench'', ''data.ndjson'', ''2''] ! 1) = Inr demo_buf"
    by (simp_all add: fail_env_facts)
  have rt: "run_times_of fail_env (Suc (Suc 0)) = [1, 1]"
    by (simp add: run_times_of_def elapsed_of_def fail_env_def demo_env_def)
  have len: "length demo_buf = 33" by (simp add: demo_buf_def)
  have "nat 2 = (2::nat)" by simp
  then show ?thesis
    by (simp add: tokenizer_main_closed [OF ok] fail_env_facts tok_prefix_def
        timed_pass_def pass_lookups_def tok_report_def Let_def rt len docs_per_iter_def
        gb_per_sec_def numeral_2_eq_2)
qed

lemma tok_report_no_load: "filter is_load (tok_report env argv json) = []"
  by (simp add: tok_report_def Let_def)

lemma tok_report_stdout:
  "filter is_stdout (tok_report env argv json) = [last (tok_report env argv json)]"
  by (simp add: tok_report_def Let_def)

lemma timed_passes_no_stdout: "filter is_stdout (concat (replicate n (timed_pass env json))) = []"
proof -
  have "filter is_stdout (pass_lookups ds) = []" for ds
    by (induction ds) (simp_all add: pass_lookups_def)
  then have "filter is_stdout (timed_pass env json) = []" by (simp add: timed_pass_def)
  then show ?thesis by (induction n) simp_all
qed

lemma tok_prefix_no_stdout: "filter is_stdout (tok_prefix env argv json) = []"
  by (simp add: tok_prefix_def filter_derefs)

lemma before_first_reading:
  assumes "Now \<notin> set pre"
  shows "before_timer (pre @ concat (replicate n (timed_pass env json)) @ post)
           = pre @ (if 0 < n then [NewParser] else takeWhile (\<lambda>e. e \<noteq> Now) post)"
proof (cases n)
  case 0
  have "takeWhile (\<lambda>e. e \<noteq> Now) (pre @ post) = pre @ takeWhile (\<lambda>e. e \<noteq> Now) post"
    using assms by (intro takeWhile_append2) auto
  then show ?thesis using 0 by (simp add: before_timer_def)
next
  case (Suc m)
  define rest where
    "rest = IterateMany json # pass_lookups (pass_docs env json) @ [Now]
              @ concat (replicate m (timed_pass env json)) @ post"
  have eq: "pre @ concat (replicate n (timed_pass env json)) @ post
              = (pre @ [NewParser]) @ Now # rest"
    by (simp add: Suc timed_pass_def rest_def)
  have "Now \<notin> set (pre @ [NewParser])" using assms by simp
  then have "takeWhile (\<lambda>e. e \<noteq> Now) ((pre @ [NewParser]) @ Now # rest) = pre @ [NewParser]"
    by (rule split_at_Now(1))
  then show ?thesis
    unfolding before_timer_def eq using Suc by simp
qed

text \<open>
  Claim C7. The iteration count defaults to 5. A run of the tokenizer tool that loaded its
  file does, in this order: the load (the only one), one warm-up pass, which sets up a parser
  and a stream and dereferences every document of the stream, then \<open>N\<close> timed passes (none
  when \<open>N \<le> 0\<close>), each a fresh parser, a clock reading, \<^verbatim>\<open>iterate_many\<close> over the same
  buffer, every document with its lookup, and a second clock reading; the report follows
  when \<open>N \<ge> 1\<close>. The load, the whole warm-up pass and the first timed pass's parser are all
  that happens before the first clock reading.
\<close>

theorem tokenizer_pass_structure:
  assumes "2 \<le> length argv" and "load_file env (argv ! 1) = Inr json"
  shows "tok_iters env [a0, a1] = 5
         \<and> fst (tokenizer_main env argv)
           = [Load (argv ! 1), Stderr (FileLoaded (length json)), NewParser, IterateMany json]
             @ map (\<lambda>d. Deref) (pass_docs env json)
             @ [Stderr (Running (tok_iters env argv))]
             @ concat (replicate (nat (tok_iters env argv))
                 ([NewParser, Now, IterateMany json]
                  @ concat (map (\<lambda>d. [Deref, Lookup ''__z__'']) (pass_docs env json))
                  @ [Now]))
             @ (if 1 \<le> tok_iters env argv then tok_report env argv json else [])
         \<and> pass_docs env json = (case iterate_many env json of Inl err \<Rightarrow> [] | Inr ds \<Rightarrow> ds)
         \<and> filter is_load (fst (tokenizer_main env argv)) = [Load (argv ! 1)]
         \<and> before_timer (fst (tokenizer_main env argv))
           = [Load (argv ! 1), Stderr (FileLoaded (length json)), NewParser, IterateMany json]
             @ map (\<lambda>d. Deref) (pass_docs env json)
             @ [Stderr (Running (tok_iters env argv))]
             @ (if 1 \<le> tok_iters env argv then [NewParser] else [])"
proof -
  let ?n = "nat (tok_iters env argv)"
  let ?post = "if 1 \<le> tok_iters env argv then tok_report env argv json else []"
  have a: "tok_iters env [a0, a1] = 5" by (simp add: tok_iters_def)
  have tr: "fst (tokenizer_main env argv)
              = tok_prefix env argv json @ concat (replicate ?n (timed_pass env json)) @ ?post"
    by (simp add: tokenizer_main_closed [OF assms])
  have b: "fst (tokenizer_main env argv)
           = [Load (argv ! 1), Stderr (FileLoaded (length json)), NewParser, IterateMany json]
             @ map (\<lambda>d. Deref) (pass_docs env json)
             @ [Stderr (Running (tok_iters env argv))]
             @ concat (replicate ?n
                 ([NewParser, Now, IterateMany json]
                  @ concat (map (\<lambda>d. [Deref, Lookup ''__z__'']) (pass_docs env json))
                  @ [Now]))
             @ ?post"
    unfolding tr by (simp add: tok_prefix_def timed_pass_def pass_lookups_def)
  have c: "pass_docs env json = (case iterate_many env json of Inl err \<Rightarrow> [] | Inr ds \<Rightarrow> ds)"
    by (simp add: pass_docs_def)
  have d: "filter is_load (fst (tokenizer_main env argv)) = [Load (argv ! 1)]"
    unfolding tr by (simp add: tok_prefix_loads timed_passes_no_load tok_report_no_load)
  have "before_timer (fst (tokenizer_main env argv))
          = tok_prefix env argv json
            @ (if 0 < ?n then [NewParser] else takeWhile (\<lambda>e. e \<noteq> Now) ?post)"
    unfolding tr by (rule before_first_reading [OF tok_prefix_no_Now])
  then have e: "before_timer (fst (tokenizer_main env argv))
           = [Load (argv ! 1), Stderr (FileLoaded (length json)), NewParser, IterateMany json]
             @ map (\<lambda>d. Deref) (pass_docs env json)
             @ [Stderr (Running (tok_iters env argv))]
             @ (if 1 \<le> tok_iters env argv then [NewParser] else [])"
    by (simp add: tok_prefix_def)
  show ?thesis using a b c d e by blast
qed

lemma demo_tok_ok:
  "2 \<le> length [''tokenizer_bench'', ''data.ndjson'', ''2'']"
  "load_file demo_env ([''tokenizer_bench'', ''data.ndjson'', ''2''] ! 1) = Inr demo_buf"
  "1 \<le> tok_iters demo_env [''tokenizer_bench'', ''data.ndjson'', ''2'']"
  by (simp_all add: demo_tok_facts)

lemma replicate_two: "replicate 2 x = [x, x]"
  by (simp add: numeral_2_eq_2)

lemma demo_run_times: "run_times_of demo_env 2 = [1, 1]"
proof -
  have "[0..<2] = [0, Suc 0]" by (simp add: numeral_2_eq_2)
  then show ?thesis by (simp add: run_times_of_def elapsed_of_def demo_env_def)
qed

lemma demo_docs_per_iter: "docs_per_iter demo_env demo_buf 2 = 3"
  by (simp add: docs_per_iter_def demo_tok_facts demo_docs_def size_max_def)

lemma demo_tok_report:
  "tok_report demo_env [''tokenizer_bench'', ''data.ndjson'', ''2''] demo_buf
     = [Stderr (TokenizerReport 33 2 3 1 (Finite (33 / 1000000000)) (Finite 1)
          (Finite (33 / 1000000000))),
        PrintSummary (Finite (33 / 1000000000)) 1 3]"
  by (simp add: tok_report_def Let_def demo_tok_facts demo_run_times demo_docs_per_iter
      gb_per_sec_def)

theorem tokenizer_pass_structure_witness:
  "fst (tokenizer_main demo_env [''tokenizer_bench'', ''data.ndjson'', ''2''])
     = [Load ''data.ndjson'', Stderr (FileLoaded 33),
        NewParser, IterateMany demo_buf, Deref, Deref, Deref,
        Stderr (Running 2),
        NewParser, Now, IterateMany demo_buf,
          Deref, Lookup ''__z__'', Deref, Lookup ''__z__'', Deref, Lookup ''__z__'', Now,
        NewParser, Now, IterateMany demo_buf,
          Deref, Lookup ''__z__'', Deref, Lookup ''__z__'', Deref, Lookup ''__z__'', Now,
        Stderr (TokenizerReport 33 2 3 1 (Finite (33 / 1000000000)) (Finite 1)
          (Finite (33 / 1000000000))),
        PrintSummary (Finite (33 / 1000000000)) 1 3]"
  using tokenizer_pass_structure [OF demo_tok_ok(1,2), THEN conjunct2, THEN conjunct1]
  by (simp add: demo_tok_facts demo_tok_report replicate_two) (simp add: demo_docs_def)

text \<open>
  Claim C9. With at least one iteration requested (the default 5 included) the timed loop
  hands the report stage as many run times as iterations, so \<^verbatim>\<open>run_times[0]\<close> is in bounds;
  the iteration count is non-zero both as the \<^verbatim>\<open>double\<close> and as the \<^verbatim>\<open>size_t\<close> divisor, and
  the run exits with code 0 rather than running into undefined behaviour.
\<close>

theorem timed_runs_recorded:
  assumes "2 \<le> length argv" and "load_file env (argv ! 1) = Inr json"
    and "1 \<le> tok_iters env argv"
  shows "tokenizer_main env argv = report (length json) (tok_iters env argv) (tok_final env argv json)
         \<and> length (run_times (tok_final env argv json)) = nat (tok_iters env argv)
         \<and> 0 < length (run_times (tok_final env argv json))
         \<and> nat (tok_iters env argv mod int size_max) \<noteq> 0
         \<and> real_of_int (tok_iters env argv) \<noteq> 0
         \<and> snd (tokenizer_main env argv) = Exit 0
         \<and> 1 \<le> tok_iters env [a0, a1]"
proof -
  have a: "tokenizer_main env argv = report (length json) (tok_iters env argv) (tok_final env argv json)"
    by (rule tokenizer_main_loaded [OF assms(1,2)])
  have b: "length (run_times (tok_final env argv json)) = nat (tok_iters env argv)"
    by (simp add: tok_final_fields run_times_of_def)
  have c: "0 < length (run_times (tok_final env argv json))"
    using b assms(3) by simp
  have d: "nat (tok_iters env argv mod int size_max) \<noteq> 0"
    using divisor_is_iters [OF assms(3)] assms(3) by simp
  have e: "real_of_int (tok_iters env argv) \<noteq> 0"
    using assms(3) by simp
  have f: "snd (tokenizer_main env argv) = Exit 0"
    using assms(3) by (simp add: tokenizer_main_closed [OF assms(1,2)])
  have g: "1 \<le> tok_iters env [a0, a1]" by (simp add: tok_iters_def)
  show ?thesis using a b c d e f g by blast
qed

theorem timed_runs_recorded_witness:
  "1 \<le> tok_iters demo_env [''tokenizer_bench'', ''data.ndjson'', ''2'']
   \<and> run_times (tok_final demo_env [''tokenizer_bench'', ''data.ndjson'', ''2''] demo_buf) = [1, 1]
   \<and> snd (tokenizer_main demo_env [''tokenizer_bench'', ''data.ndjson'', ''2'']) = Exit 0"
proof -
  have "run_times (tok_final demo_env [''tokenizer_bench'', ''data.ndjson'', ''2''] demo_buf) = [1, 1]"
    by (simp add: tok_final_fields demo_tok_facts demo_run_times)
  then show ?thesis
    using timed_runs_recorded [OF demo_tok_ok, of "''tokenizer_bench''" "''data.ndjson''"] demo_tok_ok(3)
    by blast
qed

subsection \<open>The report stage of the tokenizer tool\<close>

text \<open>
  After \<open>N \<ge> 1\<close> timed runs the recorded times are the \<open>N\<close> differences of successive clock
  readings; the best time is their minimum (one of them), the average is their sum divided
  by \<open>N\<close>, the throughput of each is \<open>file_size / elapsed / 1e9\<close> in IEEE division (infinite
  for a run that measured zero seconds on a non-empty file), and stdout receives exactly one
  summary line, built from the best time.
\<close>

lemma report_figures_after_runs:
  assumes "2 \<le> length argv" and "load_file env (argv ! 1) = Inr json"
    and "1 \<le> tok_iters env argv"
  shows "run_times (tok_final env argv json) = run_times_of env (nat (tok_iters env argv))
         \<and> run_times_of env (nat (tok_iters env argv))
           = map (\<lambda>k. clock env (2 * k + 1) - clock env (2 * k)) [0..<nat (tok_iters env argv)]
         \<and> total_time (tok_final env argv json) = sum_list (run_times_of env (nat (tok_iters env argv)))
         \<and> Min (set (run_times_of env (nat (tok_iters env argv))))
             \<in> set (run_times_of env (nat (tok_iters env argv)))
         \<and> drop (length (tok_prefix env argv json
                    @ concat (replicate (nat (tok_iters env argv)) (timed_pass env json))))
              (fst (tokenizer_main env argv))
           = [Stderr (TokenizerReport (length json) (tok_iters env argv)
                (docs_per_iter env json (nat (tok_iters env argv)))
                (Min (set (run_times_of env (nat (tok_iters env argv)))))
                (ddiv (ddiv (Finite (real (length json)))
                         (Finite (Min (set (run_times_of env (nat (tok_iters env argv)))))))
                   (Finite 1000000000))
                (Finite (sum_list (run_times_of env (nat (tok_iters env argv)))
                           / real (nat (tok_iters env argv))))
                (ddiv (ddiv (Finite (real (length json)))
                         (Finite (sum_list (run_times_of env (nat (tok_iters env argv)))
                                    / real (nat (tok_iters env argv)))))
                   (Finite 1000000000))),
              PrintSummary
                (ddiv (ddiv (Finite (real (length json)))
                         (Finite (Min (set (run_times_of env (nat (tok_iters env argv)))))))
                   (Finite 1000000000))
                (Min (set (run_times_of env (nat (tok_iters env argv)))))
                (docs_per_iter env json (nat (tok_iters env argv)))]
         \<and> filter is_stdout (fst (tokenizer_main env argv))
           = [PrintSummary
                (ddiv (ddiv (Finite (real (length json)))
                         (Finite (Min (set (run_times_of env (nat (tok_iters env argv)))))))
                   (Finite 1000000000))
                (Min (set (run_times_of env (nat (tok_iters env argv)))))
                (docs_per_iter env json (nat (tok_iters env argv)))]"
proof -
  let ?n = "nat (tok_iters env argv)"
  let ?ts = "run_times_of env ?n"
  have pos: "0 < ?n" using assms(3) by simp
  have a: "run_times (tok_final env argv json) = ?ts" by (simp add: tok_final_fields)
  have b: "?ts = map (\<lambda>k. clock env (2 * k + 1) - clock env (2 * k)) [0..<?n]"
    by (simp add: run_times_of_def elapsed_of_def [abs_def])
  have c: "total_time (tok_final env argv json) = sum_list ?ts" by (simp add: tok_final_fields)
  have "?ts \<noteq> []" using pos by (simp add: run_times_of_def)
  then have d: "Min (set ?ts) \<in> set ?ts" by (simp add: Min_in)
  have avg: "ddiv (Finite (sum_list ?ts)) (Finite (real ?n)) = Finite (sum_list ?ts / real ?n)"
    using pos by simp
  have rep: "tok_report env argv json
      = [Stderr (TokenizerReport (length json) (tok_iters env argv) (docs_per_iter env json ?n)
           (Min (set ?ts))
           (ddiv (ddiv (Finite (real (length json))) (Finite (Min (set ?ts)))) (Finite 1000000000))
           (Finite (sum_list ?ts / real ?n))
           (ddiv (ddiv (Finite (real (length json))) (Finite (sum_list ?ts / real ?n)))
              (Finite 1000000000))),
         PrintSummary
           (ddiv (ddiv (Finite (real (length json))) (Finite (Min (set ?ts)))) (Finite 1000000000))
           (Min (set ?ts)) (docs_per_iter env json ?n)]"
    unfolding tok_report_def Let_def avg by (simp only: gb_per_sec_as_specified)
  have tr: "fst (tokenizer_main env argv)
              = (tok_prefix env argv json @ concat (replicate ?n (timed_pass env json)))
                @ tok_report env argv json"
    using assms(3) by (simp add: tokenizer_main_closed [OF assms(1,2)])
  have e: "drop (length (tok_prefix env argv json @ concat (replicate ?n (timed_pass env json))))
              (fst (tokenizer_main env argv)) = tok_report env argv json"
    unfolding tr by (rule append_eq_conv_conj [THEN iffD1, THEN conjunct2, symmetric]) simp
  have f: "filter is_stdout (fst (tokenizer_main env argv)) = [last (tok_report env argv json)]"
    unfolding tr
    by (simp add: tok_prefix_no_stdout timed_passes_no_stdout tok_report_stdout del: append_assoc)
  show ?thesis
    using a b c d e f unfolding rep by simp
qed

lemma flat_clock_facts:
  "2 \<le> length [''tokenizer_bench'', ''data.ndjson'', ''2'']"
  "load_file flat_env ([''tokenizer_bench'', ''data.ndjson'', ''2''] ! 1) = Inr demo_buf"
  "1 \<le> tok_iters flat_env [''tokenizer_bench'', ''data.ndjson'', ''2'']"
  "nat (tok_iters flat_env [''tokenizer_bench'', ''data.ndjson'', ''2'']) = 2"
  "pass_docs flat_env demo_buf = demo_docs"
  "run_times_of flat_env 2 = [0, 0]"
proof -
  have "[0..<2] = [0, Suc 0]" by (simp add: numeral_2_eq_2)
  then show "run_times_of flat_env 2 = [0, 0]"
    by (simp add: run_times_of_def elapsed_of_def flat_env_def demo_env_def)
qed (simp_all add: flat_env_def demo_env_def tok_iters_def pass_docs_def)

text \<open>A clock that does not advance between its readings: the throughput printed is infinite.\<close>

lemma flat_clock_prints_infinity:
  "filter is_stdout (fst (tokenizer_main flat_env [''tokenizer_bench'', ''data.ndjson'', ''2'']))
     = [PrintSummary PosInf 0 3]"
proof -
  have dpi: "docs_per_iter flat_env demo_buf 2 = 3"
    by (simp add: docs_per_iter_def flat_clock_facts demo_docs_def size_max_def)
  have len: "length demo_buf = 33" by (simp add: demo_buf_def)
  show ?thesis
    using report_figures_after_runs [OF flat_clock_facts(1-3), THEN conjunct2, THEN conjunct2,
        THEN conjunct2, THEN conjunct2, THEN conjunct2]
    by (simp add: flat_clock_facts dpi len)
qed

text \<open>
  Claim C8. The report stage computes the best time from \<^verbatim>\<open>run_times[0]\<close> on and prints the
  summary line from it. With an iteration count of 0 no timed run is recorded: the report
  stage reads \<^verbatim>\<open>run_times[0]\<close> of an empty vector, the run has undefined behaviour and no
  summary line is defined on stdout, where the claim speaks of a best time, an average and
  exactly one summary line after the \<open>N\<close> timed runs.
\<close>

theorem zero_iterations_undefined:
  "tok_iters demo_env [''tokenizer_bench'', ''data.ndjson'', ''0''] = 0
   \<and> run_times (tok_final demo_env [''tokenizer_bench'', ''data.ndjson'', ''0''] demo_buf) = []
   \<and> tokenizer_main demo_env [''tokenizer_bench'', ''data.ndjson'', ''0'']
     = ([Load ''data.ndjson'', Stderr (FileLoaded 33), NewParser, IterateMany demo_buf,
         Deref, Deref, Deref, Stderr (Running 0)],
        Undefined)
   \<and> filter is_stdout (fst (tokenizer_main demo_env [''tokenizer_bench'', ''data.ndjson'', ''0'']))
     = []"
proof -
  have it: "tok_iters demo_env [''tokenizer_bench'', ''data.ndjson'', ''0''] = 0"
    by (simp add: tok_iters_def demo_env_def)
  have ok: "2 \<le> length [''tokenizer_bench'', ''data.ndjson'', ''0'']"
    "load_file demo_env ([''tokenizer_bench'', ''data.ndjson'', ''0''] ! 1) = Inr demo_buf"
    by (simp_all add: demo_env_def)
  have rt: "run_times (tok_final demo_env [''tokenizer_bench'', ''data.ndjson'', ''0''] demo_buf) = []"
    by (simp add: tok_final_fields it run_times_of_def)
  have len: "length demo_buf = 33" by (simp add: demo_buf_def)
  have main: "tokenizer_main demo_env [''tokenizer_bench'', ''data.ndjson'', ''0'']
     = ([Load ''data.ndjson'', Stderr (FileLoaded 33), NewParser, IterateMany demo_buf,
         Deref, Deref, Deref, Stderr (Running 0)],
        Undefined)"
    by (simp add: tokenizer_main_closed [OF ok] it tok_prefix_def demo_tok_facts len)
       (simp add: demo_docs_def)
  show ?thesis using it rt main by simp
qed

end
